theory Spec2Isabelle
  imports Main "HOL-Library.Multiset"
begin

section \<open>Data model\<close>

text \<open>
  The program is a Streamlit page over a pandas DataFrame. Python strings are sequences of
  Unicode code points, so a \<open>str\<close> is a list of code points (integers). A cell of a DataFrame is the
  missing marker of an object column (\<open>pd.NA\<close>), a string, the missing marker of a
  datetime column (\<open>NaT\<close>) or a \<open>Timestamp\<close>. A timestamp is held as pandas holds it: a
  count of nanoseconds since 1970-01-01 00:00:00, a wall-clock reading when the column is
  tz-naive and a UTC instant when the column is tz-aware.
\<close>

type_synonym str = "int list"

datatype cell = NA | Str str | NaT | Ts int

datatype tzinfo = UTC | Asia_Seoul

datatype exc = KeyError str | ValueError | TypeError | NotImplementedError | OutOfBoundsDatetime

text \<open>The result of \<open>read_csv\<close>: the header and the lines, a cell per header entry.\<close>

record raw_frame =
  header :: "str list"
  lines :: "cell list list"

text \<open>
  A DataFrame whose date column is a datetime column: \<open>when_tz\<close> is the \<open>tz\<close> of that
  column's dtype (\<open>None\<close> for a tz-naive column), and the cells of that column are \<open>NaT\<close>
  or timestamps. The frame without rows that \<open>load_sheet\<close> returns after a failed fetch
  has a date column of dtype object; \<open>series.dt\<close> raises for it and the range helper then
  takes its \<open>tz\<close> to be \<open>None\<close>, which is what \<open>when_tz = None\<close> says of it.
\<close>

record frame =
  columns :: "str list"
  when_tz :: "tzinfo option"
  rows :: "cell list list"

text \<open>A datetime Series: the \<open>tz\<close> of its dtype and its values (\<open>None\<close> is \<open>NaT\<close>).\<close>

record dt_series =
  tz :: "tzinfo option"
  vals :: "int option list"

text \<open>
  What the parser behind \<open>pd.to_datetime\<close> reads in a cell's text: a wall-clock reading
  without zone designator, or a wall-clock reading with its offset from UTC (both in
  nanoseconds). The parser is library code and is a parameter of the model, of type
  \<open>str \<Rightarrow> parsed option\<close>; \<open>None\<close> is a text that \<open>to_datetime\<close> with
  \<open>errors="coerce"\<close> turns into \<open>NaT\<close>.
\<close>

datatype parsed = Naive int | Aware int int

text \<open>
  The instant that \<open>to_datetime\<close> with \<open>utc=True\<close> stores for a reading: a reading
  without zone is taken to be UTC, a reading with an offset is converted to UTC.
\<close>

fun instant :: "parsed \<Rightarrow> int" where
  "instant (Naive w) = w"
| "instant (Aware w off) = w - off"

text \<open>What \<open>st.error\<close> shows: the failure notice with the exception's message.\<close>

datatype notice = ErrorBox str

subsection \<open>Configuration\<close>

definition col_date :: str where
  "col_date = [45216, 51676]"

definition col_title :: str where
  "col_title = [51228, 47785]"

definition col_body :: str where
  "col_body = [48376, 47928]"

definition col_topic :: str where
  "col_topic = [53664, 54589, 32, 48516, 47448]"

definition col_summary :: str where
  "col_summary = [50836, 50557]"

definition col_newsletter :: str where
  "col_newsletter = [45684, 49828, 47112, 53552]"

definition REQUIRED_COLS :: "str list" where
  "REQUIRED_COLS = [col_date, col_title, col_body, col_topic, col_summary, col_newsletter]"

subsection \<open>Time\<close>

definition NS :: int where
  "NS = 1000000000"

definition DAY :: int where
  "DAY = 86400 * NS"

text \<open>
  The offset by which the range helper of \<open>filter_data\<close> moves a bound into the zone of a
  tz-aware column: the offset of the zone that is in force today (for Asia/Seoul since
  1988-10-08 17:00 UTC). The offsets by which an instant is read in a zone at any time are
  those of the tz database, \<open>tz_database\<close> below.
\<close>

fun utcoffset :: "tzinfo \<Rightarrow> int \<Rightarrow> int" where
  "utcoffset UTC t = 0"
| "utcoffset Asia_Seoul t = 9 * 3600 * NS"

text \<open>
  The tz database's entry for Asia/Seoul: the changes of the offset from UTC, each with the
  second (counted from 1970-01-01 00:00:00 UTC) at which it takes effect and the offset in
  seconds from then on. Before the first change the offset is local mean time, 8:27:52
  (\<open>30472\<close> seconds); the changes are the standard times of 1908, 1912, 1954 and 1961 and
  the daylight saving times of 1948 to 1951, 1955 to 1960 and 1987 to 1988; since
  1988-10-08 17:00 UTC the offset is nine hours.
\<close>

definition Asia_Seoul_changes :: "(int \<times> int) list" where
  "Asia_Seoul_changes =
     [(-1948782472, 30600), (-1830414600, 32400), (-767350800, 32400),
      (-681210000, 36000), (-672228000, 32400), (-654771600, 36000),
      (-640864800, 32400), (-623408400, 36000), (-609415200, 32400),
      (-588848400, 36000), (-577965600, 32400), (-498128400, 30600),
      (-462702600, 34200), (-451733400, 30600), (-429784200, 34200),
      (-418296600, 30600), (-399544200, 34200), (-387451800, 30600),
      (-368094600, 34200), (-356002200, 30600), (-336645000, 34200),
      (-324552600, 30600), (-305195400, 34200), (-293103000, 30600),
      (-264933000, 32400), (547578000, 36000), (560883600, 32400),
      (579027600, 36000), (592333200, 32400)]"

fun offset_at :: "(int \<times> int) list \<Rightarrow> int \<Rightarrow> int \<Rightarrow> int" where
  "offset_at [] cur t = cur"
| "offset_at ((at, off) # rest) cur t = (if t < at then cur else offset_at rest off t)"

text \<open>The offset of a zone from UTC at an instant (both in nanoseconds).\<close>

definition tz_database :: "tzinfo \<Rightarrow> int \<Rightarrow> int" where
  "tz_database z t =
     (case z of
        UTC \<Rightarrow> 0
      | Asia_Seoul \<Rightarrow> offset_at Asia_Seoul_changes 30472 (t div NS) * NS)"

text \<open>
  The range of the 64-bit integer that holds a timestamp (the least 64-bit integer is
  \<open>NaT\<close>); for a nanosecond \<open>Timestamp\<close> it is the range from \<open>Timestamp.min\<close> to
  \<open>Timestamp.max\<close>.
\<close>

definition in_bounds :: "int \<Rightarrow> bool" where
  "in_bounds v \<longleftrightarrow> - 9223372036854775807 \<le> v \<and> v \<le> 9223372036854775807"

section \<open>load_sheet\<close>

text \<open>\<open>str.strip()\<close>: the code points for which \<open>str.isspace\<close> holds are removed at both ends.\<close>

definition isspace :: "int \<Rightarrow> bool" where
  "isspace c \<longleftrightarrow> (9 \<le> c \<and> c \<le> 13) \<or> (28 \<le> c \<and> c \<le> 32) \<or> c = 133 \<or> c = 160
     \<or> c = 5760 \<or> (8192 \<le> c \<and> c \<le> 8202) \<or> c = 8232 \<or> c = 8233 \<or> c = 8239
     \<or> c = 8287 \<or> c = 12288"

definition strip :: "str \<Rightarrow> str" where
  "strip s = rev (dropWhile isspace (rev (dropWhile isspace s)))"

text \<open>\<open>df[c] = pd.NA\<close> for a new name: a column of \<open>NA\<close> is appended.\<close>

definition add_column :: "str \<Rightarrow> raw_frame \<Rightarrow> raw_frame" where
  "add_column c df = \<lparr>header = header df @ [c], lines = map (\<lambda>r. r @ [NA]) (lines df)\<rparr>"

definition ensure_column :: "str \<Rightarrow> raw_frame \<Rightarrow> raw_frame" where
  "ensure_column c df = (if c \<notin> set (header df) then add_column c df else df)"

text \<open>The position of a column name in the header.\<close>

fun index_of :: "str \<Rightarrow> str list \<Rightarrow> nat option" where
  "index_of c [] = None"
| "index_of c (x # xs) = (if x = c then Some 0 else map_option Suc (index_of c xs))"

text \<open>
  \<open>pd.to_datetime(series, errors="coerce", utc=True)\<close>, cell by cell: a missing cell and a
  text that is no date become \<open>NaT\<close>; with \<open>utc=True\<close> a reading without zone is taken as
  UTC and a reading with an offset is converted to UTC. The result is a tz-aware series in
  UTC.
\<close>

fun to_datetime_cell :: "(str \<Rightarrow> parsed option) \<Rightarrow> cell \<Rightarrow> int option" where
  "to_datetime_cell parse (Str s) =
     (case parse s of
        None \<Rightarrow> None
      | Some r \<Rightarrow> Some (instant r))"
| "to_datetime_cell parse NA = None"
| "to_datetime_cell parse NaT = None"
| "to_datetime_cell parse (Ts v) = Some v"

definition to_datetime :: "(str \<Rightarrow> parsed option) \<Rightarrow> cell list \<Rightarrow> dt_series" where
  "to_datetime parse cs = \<lparr>tz = Some UTC, vals = map (to_datetime_cell parse) cs\<rparr>"

text \<open>\<open>series.dt.tz_convert(zone)\<close>: a tz-naive series raises \<open>TypeError\<close>.\<close>

definition tz_convert :: "tzinfo \<Rightarrow> dt_series \<Rightarrow> exc + dt_series" where
  "tz_convert z s = (case tz s of None \<Rightarrow> Inl TypeError | Some _ \<Rightarrow> Inr (s\<lparr>tz := Some z\<rparr>))"

text \<open>\<open>series.dt.tz_localize(None)\<close>: the wall-clock readings in the series' zone, without zone.\<close>

definition tz_localize_None :: "dt_series \<Rightarrow> dt_series" where
  "tz_localize_None s =
     (case tz s of
        None \<Rightarrow> s
      | Some z \<Rightarrow> \<lparr>tz = None, vals = map (map_option (\<lambda>v. v + tz_database z v)) (vals s)\<rparr>)"

definition cell_of :: "int option \<Rightarrow> cell" where
  "cell_of v = (case v of None \<Rightarrow> NaT | Some t \<Rightarrow> Ts t)"

text \<open>\<open>df[c] = s\<close> for the column at position \<open>i\<close>.\<close>

definition set_column :: "nat \<Rightarrow> dt_series \<Rightarrow> raw_frame \<Rightarrow> frame" where
  "set_column i s df =
     \<lparr>columns = header df, when_tz = tz s,
      rows = map (\<lambda>(r, v). r[i := cell_of v]) (zip (lines df) (vals s))\<rparr>"

text \<open>
  The \<open>try\<close> block of \<open>load_sheet\<close>: when \<open>tz_convert\<close> raises, the series stays as it
  was parsed.
\<close>

definition normalize_when :: "dt_series \<Rightarrow> dt_series" where
  "normalize_when s =
     (case tz_convert Asia_Seoul s of
        Inl _ \<Rightarrow> s
      | Inr s1 \<Rightarrow> tz_localize_None s1)"

text \<open>
  \<open>load_sheet\<close>. The argument is the outcome of \<open>read_csv\<close>: the message of the
  \<open>Exception\<close> it raised (unreachable source, malformed response), or the frame it read.
  The result is what \<open>st.error\<close> showed and the frame returned, or the exception that
  leaves the function: \<open>df["..."]\<close> is a DataFrame, not a Series, when the name occurs
  twice in the stripped header, and \<open>to_datetime\<close> of it raises \<open>ValueError\<close>.
\<close>

definition empty_frame :: frame where
  "empty_frame = \<lparr>columns = REQUIRED_COLS, when_tz = None, rows = []\<rparr>"

definition load_sheet ::
  "(str \<Rightarrow> parsed option) \<Rightarrow> str + raw_frame \<Rightarrow> exc + (notice list \<times> frame)" where
  "load_sheet parse fetched =
     (case fetched of
        Inl msg \<Rightarrow> Inr ([ErrorBox msg], empty_frame)
      | Inr df0 \<Rightarrow>
          (let df1 = df0\<lparr>header := map strip (header df0)\<rparr>;
               df2 = fold ensure_column REQUIRED_COLS df1
           in if count_list (header df2) col_date \<noteq> 1 then Inl ValueError
              else (case index_of col_date (header df2) of
                      None \<Rightarrow> Inl (KeyError col_date)
                    | Some i \<Rightarrow>
                        (let s = to_datetime parse (map (\<lambda>r. r ! i) (lines df2))
                         in Inr ([], set_column i (normalize_when s) df2)))))"

section \<open>filter_data\<close>

text \<open>
  A \<open>pd.Timestamp\<close>: its \<open>tzinfo\<close> and its value, a wall-clock reading when \<open>tzinfo\<close> is
  \<open>None\<close> and a UTC instant otherwise. A \<open>datetime.date\<close> is the number of its day, counted
  from 1970-01-01.
\<close>

record timestamp =
  tzinfo :: "tzinfo option"
  ts_value :: int

definition Timestamp :: "int \<Rightarrow> timestamp" where
  "Timestamp d = \<lparr>tzinfo = None, ts_value = d * DAY\<rparr>"

text \<open>\<open>ts.tz_localize(z)\<close> of a tz-naive timestamp: the instant at which zone \<open>z\<close> reads it.\<close>

definition ts_tz_localize :: "tzinfo \<Rightarrow> timestamp \<Rightarrow> timestamp" where
  "ts_tz_localize z ts = \<lparr>tzinfo = Some z, ts_value = ts_value ts - utcoffset z (ts_value ts)\<rparr>"

text \<open>\<open>ts.tz_convert(z)\<close> of a tz-aware timestamp: the same instant, read in zone \<open>z\<close>.\<close>

definition ts_tz_convert :: "tzinfo \<Rightarrow> timestamp \<Rightarrow> timestamp" where
  "ts_tz_convert z ts = ts\<lparr>tzinfo := Some z\<rparr>"

definition coerce_range_like_series_tz :: "int \<Rightarrow> int \<Rightarrow> dt_series \<Rightarrow> timestamp \<times> timestamp" where
  "coerce_range_like_series_tz start end series =
     (let start_ts = Timestamp start;
          end_ts = (Timestamp end)\<lparr>ts_value := ts_value (Timestamp end) + DAY - NS\<rparr>
      in case tz series of
           None \<Rightarrow> (start_ts, end_ts)
         | Some z \<Rightarrow>
             ((if tzinfo start_ts = None then ts_tz_localize z start_ts
               else ts_tz_convert z start_ts),
              (if tzinfo end_ts = None then ts_tz_localize z end_ts
               else ts_tz_convert z end_ts)))"

text \<open>The value of a cell of the date column; \<open>notna\<close> of a cell.\<close>

fun when_of :: "cell \<Rightarrow> int option" where
  "when_of (Ts v) = Some v"
| "when_of _ = None"

fun notna :: "cell \<Rightarrow> bool" where
  "notna NA = False"
| "notna NaT = False"
| "notna _ = True"

text \<open>\<open>series.isin(topics)\<close> for a list of strings.\<close>

fun isin :: "str list \<Rightarrow> cell \<Rightarrow> bool" where
  "isin topics (Str s) = (s \<in> set topics)"
| "isin topics _ = False"

text \<open>
  \<open>series >= ts\<close> and \<open>series <= ts\<close> on a datetime series: pandas raises \<open>TypeError\<close> when
  one side is tz-aware and the other tz-naive; \<open>NaT\<close> compares false.
\<close>

definition comparable :: "tzinfo option \<Rightarrow> timestamp \<Rightarrow> bool" where
  "comparable series_tz ts \<longleftrightarrow> (series_tz = None) = (tzinfo ts = None)"

definition ge_ts :: "cell \<Rightarrow> timestamp \<Rightarrow> bool" where
  "ge_ts c ts = (case when_of c of None \<Rightarrow> False | Some v \<Rightarrow> ts_value ts \<le> v)"

definition le_ts :: "cell \<Rightarrow> timestamp \<Rightarrow> bool" where
  "le_ts c ts = (case when_of c of None \<Rightarrow> False | Some v \<Rightarrow> v \<le> ts_value ts)"

definition filter_topics :: "str list option \<Rightarrow> frame \<Rightarrow> exc + frame" where
  "filter_topics topics df =
     (case topics of
        None \<Rightarrow> Inr df
      | Some ts \<Rightarrow>
          (if ts = [] then Inr df
           else (case index_of col_topic (columns df) of
                   None \<Rightarrow> Inl (KeyError col_topic)
                 | Some j \<Rightarrow> Inr (df\<lparr>rows := filter (\<lambda>r. isin ts (r ! j)) (rows df)\<rparr>))))"

definition filter_dates :: "(int \<times> int) option \<Rightarrow> frame \<Rightarrow> exc + frame" where
  "filter_dates date_range df =
     (case date_range of
        None \<Rightarrow> Inr df
      | Some (start, end) \<Rightarrow>
          (case index_of col_date (columns df) of
             None \<Rightarrow> Inl (KeyError col_date)
           | Some i \<Rightarrow>
               (let series = \<lparr>tz = when_tz df, vals = map (\<lambda>r. when_of (r ! i)) (rows df)\<rparr>;
                    (start_dt, end_dt) = coerce_range_like_series_tz start end series
                in if comparable (when_tz df) start_dt \<and> comparable (when_tz df) end_dt
                   then Inr (df\<lparr>rows :=
                          filter (\<lambda>r. notna (r ! i) \<and> ge_ts (r ! i) start_dt \<and> le_ts (r ! i) end_dt)
                            (rows df)\<rparr>)
                   else Inl TypeError)))"

text \<open>
  \<open>sort_values(by, ascending=False, na_position="last")\<close> with the default
  \<open>kind="quicksort"\<close>. pandas computes the order of the rows (\<open>nargsort\<close>) in this way: the
  positions of the missing keys are set apart; the present keys and their positions are
  reversed, the reversed keys are sorted by numpy's \<open>argsort\<close>, and the order found is
  reversed again; the positions of the missing keys are appended as they are. numpy's
  \<open>argsort\<close> with \<open>kind="quicksort"\<close> is a parameter of the model: it returns the positions
  of the keys in an ascending order of the keys, and pandas documents that only
  \<open>kind="mergesort"\<close> and \<open>kind="stable"\<close> keep equal keys in their order.
\<close>

definition nargsort :: "(int list \<Rightarrow> nat list) \<Rightarrow> int option list \<Rightarrow> nat list" where
  "nargsort argsort keys =
     (let idx = [0..<length keys];
          non_nan_idx = filter (\<lambda>i. keys ! i \<noteq> None) idx;
          nan_idx = filter (\<lambda>i. keys ! i = None) idx;
          non_nans = map (\<lambda>i. the (keys ! i)) non_nan_idx;
          non_nans_r = rev non_nans;
          non_nan_idx_r = rev non_nan_idx;
          indexer = map (\<lambda>j. non_nan_idx_r ! j) (argsort non_nans_r)
      in rev indexer @ nan_idx)"

definition sort_values :: "(int list \<Rightarrow> nat list) \<Rightarrow> frame \<Rightarrow> exc + frame" where
  "sort_values argsort df =
     (case index_of col_date (columns df) of
        None \<Rightarrow> Inl (KeyError col_date)
      | Some i \<Rightarrow>
          Inr (df\<lparr>rows :=
            map (\<lambda>k. rows df ! k) (nargsort argsort (map (\<lambda>r. when_of (r ! i)) (rows df)))\<rparr>))"

definition then_do :: "exc + 'a \<Rightarrow> ('a \<Rightarrow> exc + 'b) \<Rightarrow> exc + 'b" where
  "then_do r f = (case r of Inl e \<Rightarrow> Inl e | Inr x \<Rightarrow> f x)"

definition filter_data ::
  "(int list \<Rightarrow> nat list) \<Rightarrow> frame \<Rightarrow> str list option \<Rightarrow> (int \<times> int) option \<Rightarrow> exc + frame" where
  "filter_data argsort df topics date_range =
     then_do (then_do (filter_topics topics df) (filter_dates date_range)) (sort_values argsort)"

text \<open>
  What numpy promises of \<open>argsort\<close>: a rearrangement of the positions that puts the keys in
  ascending order. \<open>stable_argsort\<close> is the one that also keeps equal keys in their order
  (\<open>kind="stable"\<close>).
\<close>

definition argsort_ok :: "(int list \<Rightarrow> nat list) \<Rightarrow> bool" where
  "argsort_ok argsort \<longleftrightarrow>
     (\<forall>ks. mset (argsort ks) = mset [0..<length ks] \<and> sorted (map (\<lambda>j. ks ! j) (argsort ks)))"

definition stable_argsort :: "int list \<Rightarrow> nat list" where
  "stable_argsort ks = sort_key (\<lambda>j. ks ! j) [0..<length ks]"

text \<open>A frame as \<open>read_csv\<close> returns it is rectangular: every line has a cell per column.\<close>

definition wf_raw :: "raw_frame \<Rightarrow> bool" where
  "wf_raw df \<longleftrightarrow> (\<forall>r \<in> set (lines df). length r = length (header df))"

text \<open>What the loop over REQUIRED_COLS appends.\<close>

definition missing_cols :: "str list \<Rightarrow> str list \<Rightarrow> str list" where
  "missing_cols cs hs = fold (\<lambda>c acc. if c \<notin> set (hs @ acc) then acc @ [c] else acc) cs []"

text \<open>The frame that \<open>load_sheet\<close> returns for a frame that was read.\<close>

definition loaded :: "(str \<Rightarrow> parsed option) \<Rightarrow> raw_frame \<Rightarrow> nat \<Rightarrow> frame" where
  "loaded parse df0 i =
     (let hs = map strip (header df0); ms = missing_cols REQUIRED_COLS hs
      in \<lparr>columns = hs @ ms, when_tz = None,
          rows = map (\<lambda>r. (r @ replicate (length ms) NA)
                         [i := cell_of (map_option (\<lambda>v. v + tz_database Asia_Seoul v)
                                  (to_datetime_cell parse ((r @ replicate (length ms) NA) ! i)))])
                   (lines df0)\<rparr>)"

text \<open>
  The scenario of the specification: the texts \<open>2024-01-05T10:00:00Z\<close>,
  \<open>2024-01-06 09:00\<close> and \<open>garbage\<close>, what the parser reads in them (10:00 with offset
  zero, 09:00 without zone, no date; \<open>1704448800\<close> and \<open>1704531600\<close> are the seconds from
  1970-01-01 00:00 to these readings), the two topics, and the frames read.
\<close>

definition txt_utc :: str where
  "txt_utc = [50, 48, 50, 52, 45, 48, 49, 45, 48, 53, 84, 49, 48, 58, 48, 48, 58, 48, 48, 90]"

definition txt_naive :: str where
  "txt_naive = [50, 48, 50, 52, 45, 48, 49, 45, 48, 54, 32, 48, 57, 58, 48, 48]"

definition txt_garbage :: str where
  "txt_garbage = [103, 97, 114, 98, 97, 103, 101]"

definition scenario_parse :: "str \<Rightarrow> parsed option" where
  "scenario_parse s =
     (if s = txt_utc then Some (Aware (1704448800 * NS) 0)
      else if s = txt_naive then Some (Naive (1704531600 * NS))
      else None)"

definition naive_raw :: raw_frame where
  "naive_raw = \<lparr>header = [col_date], lines = [[Str txt_naive]]\<rparr>"

text \<open>
  A frame whose header names the date column twice, once with a space in front; the other
  required columns are absent and the first date is no date.
\<close>

definition duplicate_raw :: raw_frame where
  "duplicate_raw =
     \<lparr>header = [32 # col_date, col_date], lines = [[Str txt_garbage, Str txt_naive]]\<rparr>"

definition txt_politics :: str where
  "txt_politics = [51221, 52824]"

definition txt_economy :: str where
  "txt_economy = [44221, 51228]"

definition scenario_raw :: raw_frame where
  "scenario_raw =
     \<lparr>header = [col_date, col_topic],
      lines = [[Str txt_utc, Str txt_politics],
               [Str txt_naive, Str txt_economy],
               [Str txt_garbage, Str txt_politics]]\<rparr>"

text \<open>
  The tests of the specification, in its words. A record passes the topic test when no
  topic is selected, or when its topic is one of the selected topics. A record passes the
  date test when no range is given, or when its timestamp is present and lies between
  \<open>start\<close> 00:00:00 and \<open>end\<close> 23:59:59, read in the zone of the column.
\<close>

definition passes_topic :: "str list option \<Rightarrow> cell \<Rightarrow> bool" where
  "passes_topic topics c \<longleftrightarrow>
     (case topics of
        None \<Rightarrow> True
      | Some ts \<Rightarrow> ts = [] \<or> (case c of Str s \<Rightarrow> s \<in> set ts | _ \<Rightarrow> False))"

definition wall_clock :: "tzinfo option \<Rightarrow> int \<Rightarrow> int" where
  "wall_clock z v = (case z of None \<Rightarrow> v | Some zone \<Rightarrow> v + utcoffset zone v)"

definition passes_date :: "tzinfo option \<Rightarrow> (int \<times> int) option \<Rightarrow> cell \<Rightarrow> bool" where
  "passes_date z date_range c \<longleftrightarrow>
     (case date_range of
        None \<Rightarrow> True
      | Some (start, end) \<Rightarrow>
          (case c of
             Ts v \<Rightarrow> start * DAY \<le> wall_clock z v \<and> wall_clock z v \<le> end * DAY + 86399 * NS
           | _ \<Rightarrow> False))"

text \<open>The rows in the order of \<open>nargsort\<close>, told by rows instead of positions.\<close>

definition sort_rows :: "(int list \<Rightarrow> nat list) \<Rightarrow> nat \<Rightarrow> cell list list \<Rightarrow> cell list list" where
  "sort_rows argsort i rs =
     (let q = rev (filter (\<lambda>r. when_of (r ! i) \<noteq> None) rs)
      in rev (map (\<lambda>j. q ! j) (argsort (map (\<lambda>r. the (when_of (r ! i))) q)))
         @ filter (\<lambda>r. when_of (r ! i) = None) rs)"

text \<open>The frame that \<open>load_sheet\<close> returns for the scenario.\<close>

definition scenario_frame :: frame where
  "scenario_frame =
     \<lparr>columns = [col_date, col_topic, col_title, col_body, col_summary, col_newsletter],
      when_tz = None,
      rows = [[Ts (1704481200 * NS), Str txt_politics, NA, NA, NA, NA],
              [Ts (1704564000 * NS), Str txt_economy, NA, NA, NA, NA],
              [NaT, Str txt_politics, NA, NA, NA, NA]]\<rparr>"

text \<open>Seventeen rows with the same timestamp, told apart by their titles.\<close>

definition tied_frame :: frame where
  "tied_frame =
     \<lparr>columns = REQUIRED_COLS, when_tz = None,
      rows = map (\<lambda>n. [Ts (1704481200 * NS), Str [65 + n], NA, NA, NA, NA]) [0..16]\<rparr>"

text \<open>The key by which the rows are sorted; the rows with a timestamp, and without.\<close>

definition when_at :: "nat \<Rightarrow> cell list \<Rightarrow> int" where
  "when_at i r = the (when_of (r ! i))"

definition present :: "nat \<Rightarrow> cell list \<Rightarrow> bool" where
  "present i r \<longleftrightarrow> when_of (r ! i) \<noteq> None"

section \<open>_format_when_display\<close>

text \<open>
  The calendar behind \<open>strftime\<close>: the year of a day counted from 1970-01-01 and the day
  within that year, found by stepping over whole years; then the month and the day of
  the month, found by stepping over the months.
\<close>

definition is_leap :: "int \<Rightarrow> bool" where
  "is_leap y \<longleftrightarrow> y mod 4 = 0 \<and> (y mod 100 \<noteq> 0 \<or> y mod 400 = 0)"

definition days_in_year :: "int \<Rightarrow> int" where
  "days_in_year y = (if is_leap y then 366 else 365)"

function year_day :: "int \<Rightarrow> int \<Rightarrow> int \<times> int" where
  "year_day y d =
     (if d < 0 then year_day (y - 1) (d + days_in_year (y - 1))
      else if days_in_year y \<le> d then year_day (y + 1) (d - days_in_year y)
      else (y, d))"
  by pat_completeness auto
termination
  by (relation "measure (\<lambda>(y, d). if d < 0 then nat (- d) + 366 else nat d)")
     (auto simp: days_in_year_def split: if_splits)

definition month_lengths :: "int \<Rightarrow> int list" where
  "month_lengths y = [31, if is_leap y then 29 else 28, 31, 30, 31, 30, 31, 31, 30, 31, 30, 31]"

fun month_day :: "int list \<Rightarrow> int \<Rightarrow> int \<Rightarrow> int \<times> int" where
  "month_day [] m d = (m, d + 1)"
| "month_day (l # ls) m d = (if d < l then (m, d + 1) else month_day ls (m + 1) (d - l))"

text \<open>
  Decimal digits, and the fields of \<open>"%Y-%m-%d %H:%M"\<close>: \<open>%m\<close>, \<open>%d\<close>, \<open>%H\<close> and \<open>%M\<close> are
  decimal numbers padded with zeros to two digits; \<open>%Y\<close> is the year as a decimal
  number, which the C library (glibc) does not pad: the year 500 is printed \<open>500\<close>.
\<close>

function digits :: "nat \<Rightarrow> str" where
  "digits n = (if n < 10 then [48 + int n] else digits (n div 10) @ [48 + int (n mod 10)])"
  by pat_completeness auto
termination
  by (relation "measure (\<lambda>n. n)") auto

definition zfill :: "nat \<Rightarrow> str \<Rightarrow> str" where
  "zfill w s = replicate (w - length s) 48 @ s"

text \<open>
  \<open>Timestamp.strftime("%Y-%m-%d %H:%M")\<close> of a wall-clock reading. pandas builds a
  \<open>datetime\<close> of the fields and raises \<open>NotImplementedError\<close> when the year is outside
  \<open>datetime\<close>'s years 1 to 9999.
\<close>

definition strftime :: "int \<Rightarrow> exc + str" where
  "strftime w =
     (let (y, doy) = year_day 1970 (w div DAY);
          (m, d) = month_day (month_lengths y) 1 doy;
          secs = (w mod DAY) div NS;
          H = secs div 3600;
          M = (secs mod 3600) div 60
      in if y < 1 \<or> 9999 < y then Inl NotImplementedError
         else Inr (digits (nat y) @ [45] @ zfill 2 (digits (nat m)) @ [45]
                   @ zfill 2 (digits (nat d)) @ [32] @ zfill 2 (digits (nat H)) @ [58]
                   @ zfill 2 (digits (nat M))))"

text \<open>
  A \<open>Timestamp\<close> holds its instant as a 64-bit count of units of its resolution. The
  model keeps every instant in nanoseconds and the resolution apart; a timestamp of a
  year outside 1677 to 2262 has a resolution coarser than nanoseconds.
\<close>

datatype resolution = Seconds | Milliseconds | Microseconds | Nanoseconds

fun per_unit :: "resolution \<Rightarrow> int" where
  "per_unit Seconds = 1000000000"
| "per_unit Milliseconds = 1000000"
| "per_unit Microseconds = 1000"
| "per_unit Nanoseconds = 1"

definition representable :: "resolution \<Rightarrow> int \<Rightarrow> bool" where
  "representable u w \<longleftrightarrow> in_bounds (w div per_unit u)"

text \<open>
  \<open>ts.tz_convert("Asia/Seoul")\<close> of a tz-aware \<open>Timestamp\<close>, read as a wall clock: the
  offset of the tz database is added; a reading that the 64 bits cannot hold raises.
\<close>

definition local_reading :: "resolution \<Rightarrow> int \<Rightarrow> exc + int" where
  "local_reading u v =
     (let w = v + tz_database Asia_Seoul v
      in if representable u w then Inr w else Inl OutOfBoundsDatetime)"

text \<open>
  \<open>_format_when_display\<close>, for a cell of a date column whose dtype has the given
  resolution and \<open>tz\<close>: a cell that is no timestamp gives the empty string; a tz-aware
  timestamp is converted to Asia/Seoul; an exception of the conversion or of the
  formatting gives the empty string.
\<close>

fun format_when_display :: "resolution \<Rightarrow> tzinfo option \<Rightarrow> cell \<Rightarrow> str" where
  "format_when_display u z (Ts v) =
     (case (case z of
              Some _ \<Rightarrow> then_do (local_reading u v) strftime
            | None \<Rightarrow> strftime v) of
        Inl _ \<Rightarrow> []
      | Inr s \<Rightarrow> s)"
| "format_when_display u z _ = []"

text \<open>The pattern \<open>YYYY-MM-DD HH:MM\<close>.\<close>

definition is_digit :: "int \<Rightarrow> bool" where
  "is_digit c \<longleftrightarrow> 48 \<le> c \<and> c \<le> 57"

definition matches_pattern :: "str \<Rightarrow> bool" where
  "matches_pattern s \<longleftrightarrow>
     length s = 16 \<and> list_all is_digit (take 4 s) \<and> s ! 4 = 45
     \<and> list_all is_digit (take 2 (drop 5 s)) \<and> s ! 7 = 45
     \<and> list_all is_digit (take 2 (drop 8 s)) \<and> s ! 10 = 32
     \<and> list_all is_digit (take 2 (drop 11 s)) \<and> s ! 13 = 58
     \<and> list_all is_digit (take 2 (drop 14 s))"

text \<open>
  The year of a wall-clock reading, and the reading that is formatted: the timestamp
  itself when it is tz-naive, its reading in Asia/Seoul when it is tz-aware.
\<close>

definition year_of :: "int \<Rightarrow> int" where
  "year_of w = fst (year_day 1970 (w div DAY))"

definition displayed :: "resolution \<Rightarrow> tzinfo option \<Rightarrow> int \<Rightarrow> exc + int" where
  "displayed u z v = (case z of None \<Rightarrow> Inr v | Some _ \<Rightarrow> local_reading u v)"

text \<open>A sheet whose only date is the first day of the year 500, written without zone.\<close>

definition txt_old :: str where
  "txt_old = [48, 53, 48, 48, 45, 48, 49, 45, 48, 49]"

definition old_parse :: "str \<Rightarrow> parsed option" where
  "old_parse s = (if s = txt_old then Some (Naive (- 46388678400 * NS)) else None)"

definition old_raw :: raw_frame where
  "old_raw = \<lparr>header = [col_date], lines = [[Str txt_old]]\<rparr>"

section \<open>Properties of load_sheet\<close>

lemma index_of_Some: "index_of c xs = Some i \<Longrightarrow> i < length xs \<and> xs ! i = c"
  by (induction xs arbitrary: i) (auto split: if_splits)

lemma index_of_mem: "c \<in> set xs \<Longrightarrow> \<exists>i. index_of c xs = Some i"
  by (induction xs) auto

lemma index_of_None: "index_of c xs = None \<longleftrightarrow> c \<notin> set xs"
  by (induction xs) auto

lemma index_of_append: "index_of c xs = Some i \<Longrightarrow> index_of c (xs @ ys) = Some i"
  by (induction xs arbitrary: i) (auto split: if_splits)

lemma index_of_snoc: "c \<notin> set xs \<Longrightarrow> index_of c (xs @ [c]) = Some (length xs)"
  by (induction xs) auto

lemma fold_ensure_aux:
  "fold ensure_column cs \<lparr>header = hs @ acc, lines = map (\<lambda>r. r @ replicate (length acc) NA) ls\<rparr>
   = \<lparr>header = hs @ fold (\<lambda>c a. if c \<notin> set (hs @ a) then a @ [c] else a) cs acc,
       lines = map (\<lambda>r. r @ replicate (length (fold (\<lambda>c a. if c \<notin> set (hs @ a) then a @ [c] else a) cs acc)) NA) ls\<rparr>"
proof (induction cs arbitrary: acc)
  case Nil
  then show ?case by simp
next
  case (Cons c cs)
  have rep: "\<And>r. r @ replicate (length acc) NA @ [NA] = r @ replicate (length (acc @ [c])) NA"
    by (simp add: replicate_append_same)
  show ?case
  proof (cases "c \<in> set (hs @ acc)")
    case True
    then show ?thesis using Cons.IH [of acc] by (auto simp: ensure_column_def)
  next
    case False
    then show ?thesis using Cons.IH [of "acc @ [c]"]
      by (simp add: ensure_column_def add_column_def o_def replicate_append_same)
  qed
qed

lemma fold_ensure:
  "fold ensure_column cs df
   = \<lparr>header = header df @ missing_cols cs (header df),
       lines = map (\<lambda>r. r @ replicate (length (missing_cols cs (header df))) NA) (lines df)\<rparr>"
  using fold_ensure_aux [of cs "header df" "[]" "lines df"]
  by (cases df) (simp add: missing_cols_def)

lemma set_missing_cols_aux:
  "set (fold (\<lambda>c a. if c \<notin> set (hs @ a) then a @ [c] else a) cs acc) = set acc \<union> (set cs - set hs)"
  by (induction cs arbitrary: acc) auto

lemma set_missing_cols: "set (missing_cols cs hs) = set cs - set hs"
  using set_missing_cols_aux [of hs cs "[]"] by (simp add: missing_cols_def)

lemma distinct_missing_cols_aux:
  "distinct acc \<Longrightarrow> distinct (fold (\<lambda>c a. if c \<notin> set (hs @ a) then a @ [c] else a) cs acc)"
  by (induction cs arbitrary: acc) auto

lemma distinct_missing_cols: "distinct (missing_cols cs hs)"
  using distinct_missing_cols_aux [of "[]" hs cs] by (simp add: missing_cols_def)

lemma count_list_append: "count_list (xs @ ys) c = count_list xs c + count_list ys c"
  by (induction xs) auto

lemma count_list_distinct: "distinct xs \<Longrightarrow> count_list xs c = (if c \<in> set xs then 1 else 0)"
  by (induction xs) auto

lemma count_list_zero: "c \<notin> set xs \<Longrightarrow> count_list xs c = 0"
  by (induction xs) auto

lemma zip_map_same: "zip (map g xs) (map f xs) = map (\<lambda>x. (g x, f x)) xs"
  by (induction xs) auto

lemma normalize_when_to_datetime:
  "normalize_when (to_datetime parse cs)
   = \<lparr>tz = None, vals = map (\<lambda>c. map_option (\<lambda>v. v + tz_database Asia_Seoul v) (to_datetime_cell parse c)) cs\<rparr>"
  by (simp add: normalize_when_def to_datetime_def tz_convert_def tz_localize_None_def o_def)

lemma load_sheet_fetched:
  "load_sheet parse (Inr df0) =
     (let hs = map strip (header df0) @ missing_cols REQUIRED_COLS (map strip (header df0))
      in if count_list hs col_date \<noteq> 1 then Inl ValueError
         else (case index_of col_date hs of
                 None \<Rightarrow> Inl (KeyError col_date)
               | Some i \<Rightarrow> Inr ([], loaded parse df0 i)))"
  by (simp add: load_sheet_def fold_ensure Let_def normalize_when_to_datetime set_column_def
        zip_map_same loaded_def o_def split: option.splits)

lemma index_of_mid: "c \<notin> set xs \<Longrightarrow> index_of c (xs @ c # ys) = Some (length xs)"
  by (induction xs) auto

lemma missing_fold_prefix:
  "\<exists>t. fold (\<lambda>c a. if c \<notin> set (hs @ a) then a @ [c] else a) cs acc = acc @ t"
proof (induction cs arbitrary: acc)
  case Nil
  then show ?case by simp
next
  case (Cons c cs)
  show ?case
  proof (cases "c \<in> set (hs @ acc)")
    case True
    then show ?thesis using Cons.IH [of acc] by auto
  next
    case False
    obtain t where "fold (\<lambda>c a. if c \<notin> set (hs @ a) then a @ [c] else a) cs (acc @ [c]) = (acc @ [c]) @ t"
      using Cons.IH [of "acc @ [c]"] by blast
    then show ?thesis using False by auto
  qed
qed

lemma missing_cols_date:
  assumes "col_date \<notin> set hs"
  shows "\<exists>t. missing_cols REQUIRED_COLS hs = col_date # t"
proof -
  obtain t where "fold (\<lambda>c a. if c \<notin> set (hs @ a) then a @ [c] else a)
       [col_title, col_body, col_topic, col_summary, col_newsletter] [col_date] = [col_date] @ t"
    using missing_fold_prefix by blast
  then show ?thesis using assms by (simp add: missing_cols_def REQUIRED_COLS_def)
qed

lemma count_missing_date:
  "count_list (missing_cols REQUIRED_COLS hs) col_date = (if col_date \<in> set hs then 0 else 1)"
  by (simp add: count_list_distinct distinct_missing_cols set_missing_cols REQUIRED_COLS_def)

lemma date_index:
  assumes "count_list hs col_date \<le> 1"
  shows "\<exists>i. index_of col_date (hs @ missing_cols REQUIRED_COLS hs) = Some i \<and>
           count_list (hs @ missing_cols REQUIRED_COLS hs) col_date = 1 \<and>
           (if col_date \<in> set hs then index_of col_date hs = Some i else i = length hs)"
proof (cases "col_date \<in> set hs")
  case True
  then obtain i where i: "index_of col_date hs = Some i" using index_of_mem by blast
  have "count_list hs col_date \<noteq> 0" using True by (induction hs) auto
  then have "count_list hs col_date = 1" using assms by simp
  then show ?thesis using True i index_of_append [OF i]
    by (simp add: count_list_append count_missing_date)
next
  case False
  then obtain t where t: "missing_cols REQUIRED_COLS hs = col_date # t"
    using missing_cols_date by blast
  have "count_list (hs @ missing_cols REQUIRED_COLS hs) col_date = 1"
    using False by (simp add: count_list_append count_missing_date count_list_zero)
  then show ?thesis using False index_of_mid [OF False, of t] t by simp
qed

lemma load_sheet_ok:
  assumes "count_list (map strip (header df0)) col_date \<le> 1"
  shows "\<exists>i. load_sheet parse (Inr df0) = Inr ([], loaded parse df0 i) \<and>
           index_of col_date (columns (loaded parse df0 i)) = Some i \<and>
           (if col_date \<in> set (map strip (header df0))
            then index_of col_date (map strip (header df0)) = Some i
            else i = length (header df0))"
proof -
  obtain i where i: "index_of col_date (map strip (header df0) @ missing_cols REQUIRED_COLS (map strip (header df0))) = Some i"
    "count_list (map strip (header df0) @ missing_cols REQUIRED_COLS (map strip (header df0))) col_date = 1"
    "if col_date \<in> set (map strip (header df0)) then index_of col_date (map strip (header df0)) = Some i
     else i = length (map strip (header df0))"
    using date_index [OF assms] by blast
  have "load_sheet parse (Inr df0) = Inr ([], loaded parse df0 i)"
    using i(1,2) by (simp add: load_sheet_fetched Let_def)
  moreover have "index_of col_date (columns (loaded parse df0 i)) = Some i"
    using i(1) by (simp add: loaded_def Let_def)
  ultimately show ?thesis using i(3) by (auto split: if_splits)
qed

lemma load_sheet_Inr:
  assumes "load_sheet parse (Inr df0) = Inr (ns, df)"
  shows "ns = [] \<and> count_list (map strip (header df0)) col_date \<le> 1"
proof -
  let ?hs = "map strip (header df0)"
  have c: "count_list (?hs @ missing_cols REQUIRED_COLS ?hs) col_date = 1"
    using assms by (auto simp: load_sheet_fetched Let_def split: if_splits)
  have "ns = []"
    using assms by (auto simp: load_sheet_fetched Let_def split: if_splits option.splits)
  moreover have "count_list ?hs col_date \<le> 1"
    using c by (simp add: count_list_append)
  ultimately show ?thesis by simp
qed

lemma loaded_columns:
  "columns (loaded parse df0 i) = map strip (header df0) @ missing_cols REQUIRED_COLS (map strip (header df0))"
  by (simp add: loaded_def Let_def)

lemma loaded_when_tz: "when_tz (loaded parse df0 i) = None"
  by (simp add: loaded_def Let_def)

lemma loaded_length: "length (rows (loaded parse df0 i)) = length (lines df0)"
  by (simp add: loaded_def Let_def)

lemma loaded_required: "set REQUIRED_COLS \<subseteq> set (columns (loaded parse df0 i))"
  by (auto simp: loaded_columns set_missing_cols)

lemma loaded_row_length:
  assumes "wf_raw df0" and "r \<in> set (rows (loaded parse df0 i))"
  shows "length r = length (columns (loaded parse df0 i))"
  using assms by (auto simp: wf_raw_def loaded_def Let_def)

lemma loaded_cell:
  assumes "wf_raw df0" and "k < length (lines df0)" and "j < length (columns (loaded parse df0 i))"
  shows "rows (loaded parse df0 i) ! k ! j =
     (let c = (if j < length (header df0) then lines df0 ! k ! j else NA)
      in if j = i then cell_of (map_option (\<lambda>v. v + tz_database Asia_Seoul v) (to_datetime_cell parse c)) else c)"
proof -
  let ?ms = "missing_cols REQUIRED_COLS (map strip (header df0))"
  let ?r = "lines df0 ! k"
  have len: "length ?r = length (header df0)"
    using assms(1,2) by (simp add: wf_raw_def)
  have j: "j < length (?r @ replicate (length ?ms) NA)"
    using assms(3) len by (simp add: loaded_columns)
  have c: "(?r @ replicate (length ?ms) NA) ! j = (if j < length (header df0) then ?r ! j else NA)"
    using j len by (auto simp: nth_append)
  have "rows (loaded parse df0 i) ! k =
      (?r @ replicate (length ?ms) NA)
        [i := cell_of (map_option (\<lambda>v. v + tz_database Asia_Seoul v)
               (to_datetime_cell parse ((?r @ replicate (length ?ms) NA) ! i)))]"
    using assms(2) by (simp add: loaded_def Let_def)
  then show ?thesis using j c by (auto simp: Let_def nth_list_update)
qed

lemma empty_frame_date: "index_of col_date (columns empty_frame) = Some 0"
  by (simp add: empty_frame_def REQUIRED_COLS_def)

lemma loaded_date_cell:
  assumes "wf_raw df0" and "index_of col_date (columns (loaded parse df0 i)) = Some i"
    and "r \<in> set (rows (loaded parse df0 i))"
  shows "r ! i = NaT \<or> (\<exists>v. r ! i = Ts v)"
proof -
  have ilt: "i < length (columns (loaded parse df0 i))"
    using assms(2) index_of_Some by blast
  obtain k where k: "k < length (rows (loaded parse df0 i))" "r = rows (loaded parse df0 i) ! k"
    using assms(3) by (metis in_set_conv_nth)
  have klt: "k < length (lines df0)" using k(1) by (simp add: loaded_length)
  have "r ! i = cell_of (map_option (\<lambda>v. v + tz_database Asia_Seoul v)
           (to_datetime_cell parse (if i < length (header df0) then lines df0 ! k ! i else NA)))"
    using loaded_cell [OF assms(1) klt ilt] k(2) by (simp add: Let_def)
  then show ?thesis
    by (cases "to_datetime_cell parse (if i < length (header df0) then lines df0 ! k ! i else NA)")
       (simp_all add: cell_of_def)
qed



text \<open>
  C6. A failure of the fetch (an exception of \<open>read_csv\<close>, with any message) makes
  \<open>load_sheet\<close> return normally: the notice is shown with the message, and the frame
  returned has the six columns and no row. No frame that was read gives this outcome, so
  the condition is distinct.
\<close>

theorem load_sheet_fetch_failure:
  "load_sheet parse (Inl msg) = Inr ([ErrorBox msg], empty_frame)
   \<and> rows empty_frame = [] \<and> columns empty_frame = REQUIRED_COLS
   \<and> load_sheet parse (Inr df0) \<noteq> load_sheet parse (Inl msg)"
proof -
  have "load_sheet parse (Inr df0) \<noteq> Inr ([ErrorBox msg], empty_frame)"
    using load_sheet_Inr [of parse df0 "[ErrorBox msg]" empty_frame] by auto
  then show ?thesis by (simp add: load_sheet_def empty_frame_def)
qed

text \<open>
  C2. In every frame that \<open>load_sheet\<close> returns, the date column is tz-naive, and each of
  its cells is \<open>NaT\<close> or a timestamp: the present values are plain wall-clock readings,
  ordered as integers, whatever mixture of texts with and without zone was read.
\<close>

theorem load_sheet_comparable:
  assumes "load_sheet parse fetched = Inr (ns, df)"
    and "\<forall>df0. fetched = Inr df0 \<longrightarrow> wf_raw df0"
  shows "when_tz df = None \<and>
         (\<exists>i. index_of col_date (columns df) = Some i \<and>
              (\<forall>r \<in> set (rows df). r ! i = NaT \<or> (\<exists>v. r ! i = Ts v)))"
proof (cases fetched)
  case (Inl msg)
  then have "df = empty_frame" using assms(1) by (simp add: load_sheet_def)
  then show ?thesis using empty_frame_date by (simp add: empty_frame_def)
next
  case (Inr df0)
  then have wf: "wf_raw df0" using assms(2) by simp
  have "count_list (map strip (header df0)) col_date \<le> 1"
    using load_sheet_Inr assms(1) Inr by blast
  then obtain i where i: "load_sheet parse (Inr df0) = Inr ([], loaded parse df0 i)"
    "index_of col_date (columns (loaded parse df0 i)) = Some i"
    using load_sheet_ok by blast
  then have df: "df = loaded parse df0 i" using assms(1) Inr by simp
  show ?thesis
    using df i(2) loaded_date_cell [OF wf i(2)] by (auto simp: loaded_when_tz)
qed

lemma scenario_loaded:
  "load_sheet scenario_parse (Inr scenario_raw) =
     Inr ([], \<lparr>columns = [col_date, col_topic, col_title, col_body, col_summary, col_newsletter],
               when_tz = None,
               rows = [[Ts (1704481200 * NS), Str txt_politics, NA, NA, NA, NA],
                       [Ts (1704564000 * NS), Str txt_economy, NA, NA, NA, NA],
                       [NaT, Str txt_politics, NA, NA, NA, NA]]\<rparr>)"
  by code_simp

lemma scenario_wf: "wf_raw scenario_raw"
  by (simp add: wf_raw_def scenario_raw_def)

theorem load_sheet_comparable_witness:
  "load_sheet scenario_parse (Inr scenario_raw) =
     Inr ([], \<lparr>columns = [col_date, col_topic, col_title, col_body, col_summary, col_newsletter],
               when_tz = None,
               rows = [[Ts (1704481200 * NS), Str txt_politics, NA, NA, NA, NA],
                       [Ts (1704564000 * NS), Str txt_economy, NA, NA, NA, NA],
                       [NaT, Str txt_politics, NA, NA, NA, NA]]\<rparr>)
   \<and> (\<exists>i. index_of col_date [col_date, col_topic, col_title, col_body, col_summary, col_newsletter] = Some i
        \<and> (\<forall>r \<in> set [[Ts (1704481200 * NS), Str txt_politics, NA, NA, NA, NA],
                       [Ts (1704564000 * NS), Str txt_economy, NA, NA, NA, NA],
                       [NaT, Str txt_politics, NA, NA, NA, NA]]. r ! i = NaT \<or> (\<exists>v. r ! i = Ts v)))"
  using load_sheet_comparable [OF scenario_loaded] scenario_wf scenario_loaded by simp

text \<open>
  C7, as the code has it. A frame whose stripped header names the date column twice is
  not loaded: \<open>load_sheet\<close> raises \<open>ValueError\<close>.
  Every other frame that was read, with any cells, is loaded without an exception. The
  frame returned has the six required columns and a cell for every column in every row;
  no row is lost; the columns that were read keep their place; every cell outside the
  date column is the cell that was read, and \<open>NA\<close> in a column that was absent; a date
  cell is \<open>NaT\<close> when the column was absent and when its text is no date, and the
  timestamp read in Asia/Seoul when its text is a date.
\<close>

theorem load_sheet_degrades:
  assumes "wf_raw df0" and "count_list (map strip (header df0)) col_date \<le> 1"
  shows "\<exists>df i. load_sheet parse (Inr df0) = Inr ([], df)
     \<and> set REQUIRED_COLS \<subseteq> set (columns df)
     \<and> length (rows df) = length (lines df0)
     \<and> (\<forall>r \<in> set (rows df). length r = length (columns df))
     \<and> take (length (header df0)) (columns df) = map strip (header df0)
     \<and> index_of col_date (columns df) = Some i
     \<and> (\<forall>k < length (lines df0). \<forall>j < length (columns df). j \<noteq> i \<longrightarrow>
           rows df ! k ! j = (if j < length (header df0) then lines df0 ! k ! j else NA))
     \<and> (\<forall>k < length (lines df0). length (header df0) \<le> i \<longrightarrow> rows df ! k ! i = NaT)
     \<and> (\<forall>k < length (lines df0). \<forall>s. i < length (header df0) \<and> lines df0 ! k ! i = Str s
           \<and> parse s = None \<longrightarrow> rows df ! k ! i = NaT)
     \<and> (\<forall>k < length (lines df0). \<forall>s r. i < length (header df0) \<and> lines df0 ! k ! i = Str s
           \<and> parse s = Some r
           \<and> (in_bounds (instant r) \<longrightarrow>
                in_bounds (instant r + tz_database Asia_Seoul (instant r))) \<longrightarrow>
           rows df ! k ! i = Ts (instant r + tz_database Asia_Seoul (instant r)))"
proof -
  obtain i where i: "load_sheet parse (Inr df0) = Inr ([], loaded parse df0 i)"
    "index_of col_date (columns (loaded parse df0 i)) = Some i"
    using load_sheet_ok [OF assms(2)] by blast
  let ?df = "loaded parse df0 i"
  have ilt: "i < length (columns ?df)" using i(2) index_of_Some by blast
  have a: "set REQUIRED_COLS \<subseteq> set (columns ?df)" by (rule loaded_required)
  have b: "length (rows ?df) = length (lines df0)" by (rule loaded_length)
  have c: "\<forall>r \<in> set (rows ?df). length r = length (columns ?df)"
    using loaded_row_length [OF assms(1)] by blast
  have d: "take (length (header df0)) (columns ?df) = map strip (header df0)"
    by (simp add: loaded_columns)
  have e: "\<forall>k < length (lines df0). \<forall>j < length (columns ?df). j \<noteq> i \<longrightarrow>
           rows ?df ! k ! j = (if j < length (header df0) then lines df0 ! k ! j else NA)"
    using loaded_cell [OF assms(1)] by (simp add: Let_def)
  have f: "\<forall>k < length (lines df0). length (header df0) \<le> i \<longrightarrow> rows ?df ! k ! i = NaT"
    using loaded_cell [OF assms(1) _ ilt] by (simp add: Let_def cell_of_def)
  have g: "\<forall>k < length (lines df0). \<forall>s. i < length (header df0) \<and> lines df0 ! k ! i = Str s
           \<and> parse s = None \<longrightarrow> rows ?df ! k ! i = NaT"
    using loaded_cell [OF assms(1) _ ilt] by (simp add: Let_def cell_of_def)
  have h: "\<forall>k < length (lines df0). \<forall>s r. i < length (header df0) \<and> lines df0 ! k ! i = Str s
           \<and> parse s = Some r
           \<and> (in_bounds (instant r) \<longrightarrow>
                in_bounds (instant r + tz_database Asia_Seoul (instant r))) \<longrightarrow>
           rows ?df ! k ! i = Ts (instant r + tz_database Asia_Seoul (instant r))"
    using loaded_cell [OF assms(1) _ ilt] by (simp add: Let_def cell_of_def)
  show ?thesis
    apply (rule exI [of _ ?df])
    apply (rule exI [of _ i])
    using i a b c d e f g h apply (intro conjI)
            apply assumption+
    done
qed

lemma scenario_date_once: "count_list (map strip (header scenario_raw)) col_date \<le> 1"
  by code_simp

theorem load_sheet_degrades_witness:
  "load_sheet scenario_parse (Inr scenario_raw) =
     Inr ([], \<lparr>columns = [col_date, col_topic, col_title, col_body, col_summary, col_newsletter],
               when_tz = None,
               rows = [[Ts (1704481200 * NS), Str txt_politics, NA, NA, NA, NA],
                       [Ts (1704564000 * NS), Str txt_economy, NA, NA, NA, NA],
                       [NaT, Str txt_politics, NA, NA, NA, NA]]\<rparr>)
   \<and> wf_raw scenario_raw \<and> count_list (map strip (header scenario_raw)) col_date \<le> 1 \<and>
   (\<exists>df i. load_sheet scenario_parse (Inr scenario_raw) = Inr ([], df)
      \<and> set REQUIRED_COLS \<subseteq> set (columns df)
      \<and> length (rows df) = length (lines scenario_raw)
      \<and> (\<forall>r \<in> set (rows df). length r = length (columns df))
      \<and> index_of col_date (columns df) = Some i)"
proof -
  obtain df i where "load_sheet scenario_parse (Inr scenario_raw) = Inr ([], df)"
    "set REQUIRED_COLS \<subseteq> set (columns df)"
    "length (rows df) = length (lines scenario_raw)"
    "\<forall>r \<in> set (rows df). length r = length (columns df)"
    "index_of col_date (columns df) = Some i"
    using load_sheet_degrades [OF scenario_wf scenario_date_once, of scenario_parse] by blast
  then show ?thesis using scenario_loaded scenario_wf scenario_date_once by blast
qed

lemma duplicate_raises:
  "count_list (map strip (header df0)) col_date > 1 \<Longrightarrow> load_sheet parse (Inr df0) = Inl ValueError"
  by (simp add: load_sheet_fetched Let_def count_list_append)

theorem load_sheet_duplicate_counterexample:
  "wf_raw duplicate_raw \<and>
   header duplicate_raw = [32 # col_date, col_date] \<and>
   lines duplicate_raw = [[Str txt_garbage, Str txt_naive]] \<and>
   scenario_parse txt_garbage = None \<and>
   load_sheet scenario_parse (Inr duplicate_raw) = Inl ValueError"
proof -
  have "count_list (map strip (header duplicate_raw)) col_date > 1" by code_simp
  then have "load_sheet scenario_parse (Inr duplicate_raw) = Inl ValueError"
    by (rule duplicate_raises)
  moreover have "scenario_parse txt_garbage = None" by code_simp
  ultimately show ?thesis by (simp add: duplicate_raw_def wf_raw_def)
qed

text \<open>
  Three readings of the tz database: local mean time, 8 h 27 min 52 s ahead of UTC, in
  the year 500; summer time, 10 h ahead, on 1987-07-01; and 9 h ahead today.
\<close>

lemma tz_database_lmt: "tz_database Asia_Seoul (- 46388678400 * NS) = 30472 * NS"
  by code_simp

lemma tz_database_summer: "tz_database Asia_Seoul (552096000 * NS) = 36000 * NS"
  by code_simp

lemma tz_database_now:
  assumes "592333200 * NS \<le> u"
  shows "tz_database Asia_Seoul u = 9 * 3600 * NS"
proof -
  have "(592333200 * NS) div NS \<le> u div NS"
    by (rule zdiv_mono1 [OF assms]) (simp add: NS_def)
  then have "592333200 \<le> u div NS" by (simp add: NS_def)
  then show ?thesis by (simp add: tz_database_def Asia_Seoul_changes_def)
qed

text \<open>
  C1, as the code has it. A date text that parses is read with \<open>utc=True\<close>: a reading
  with an offset is converted to UTC, a reading without zone is taken to be UTC. The
  instant is then read in Asia/Seoul, by the offset that the tz database gives for it
  (nine hours for every instant since 1988-10-08 17:00 UTC), and loses its zone. A text
  without zone is therefore not left as it is. The statement is for readings whose count
  of nanoseconds, when it is in the 64-bit range of pandas, stays in it after the
  conversion.
\<close>

theorem load_sheet_normalizes:
  assumes "load_sheet parse (Inr df0) = Inr (ns, df)" and "wf_raw df0"
    and "index_of col_date (map strip (header df0)) = Some i"
    and "k < length (lines df0)" and "lines df0 ! k ! i = Str s"
    and "\<forall>r. parse s = Some r \<longrightarrow> in_bounds (instant r) \<longrightarrow>
           in_bounds (instant r + tz_database Asia_Seoul (instant r))"
  shows "when_tz df = None \<and> index_of col_date (columns df) = Some i \<and>
         rows df ! k ! i =
           (case parse s of
              None \<Rightarrow> NaT
            | Some r \<Rightarrow> Ts (instant r + tz_database Asia_Seoul (instant r))) \<and>
         instant (Naive w) = w \<and> instant (Aware w off) = w - off \<and>
         (592333200 * NS \<le> u \<longrightarrow> tz_database Asia_Seoul u = 9 * 3600 * NS)"
proof -
  have cnt: "count_list (map strip (header df0)) col_date \<le> 1"
    using load_sheet_Inr [OF assms(1)] by simp
  have mem: "col_date \<in> set (map strip (header df0))"
    using assms(3) index_of_None [of col_date "map strip (header df0)"] by auto
  obtain i' where i': "load_sheet parse (Inr df0) = Inr ([], loaded parse df0 i')"
    "index_of col_date (columns (loaded parse df0 i')) = Some i'"
    "if col_date \<in> set (map strip (header df0))
     then index_of col_date (map strip (header df0)) = Some i' else i' = length (header df0)"
    using load_sheet_ok [OF cnt] by blast
  have ii: "i' = i" using i'(3) mem assms(3) by simp
  have df: "df = loaded parse df0 i" using i'(1) assms(1) ii by simp
  have ilt: "i < length (header df0)" using assms(3) index_of_Some [OF assms(3)] by simp
  then have ilt2: "i < length (columns (loaded parse df0 i))" by (simp add: loaded_columns)
  have "rows df ! k ! i =
      cell_of (map_option (\<lambda>v. v + tz_database Asia_Seoul v) (to_datetime_cell parse (Str s)))"
    using loaded_cell [OF assms(2,4) ilt2] ilt assms(5) df by (simp add: Let_def)
  then have "rows df ! k ! i =
           (case parse s of
              None \<Rightarrow> NaT
            | Some r \<Rightarrow> Ts (instant r + tz_database Asia_Seoul (instant r)))"
    by (simp add: cell_of_def split: option.splits)
  then show ?thesis using df i'(2) ii tz_database_now [of u] by (simp add: loaded_when_tz)
qed

lemma scenario_date_index: "index_of col_date (map strip (header scenario_raw)) = Some 0"
  by code_simp

theorem load_sheet_normalizes_witness:
  "load_sheet scenario_parse (Inr scenario_raw) =
     Inr ([], \<lparr>columns = [col_date, col_topic, col_title, col_body, col_summary, col_newsletter],
               when_tz = None,
               rows = [[Ts (1704481200 * NS), Str txt_politics, NA, NA, NA, NA],
                       [Ts (1704564000 * NS), Str txt_economy, NA, NA, NA, NA],
                       [NaT, Str txt_politics, NA, NA, NA, NA]]\<rparr>)
   \<and> wf_raw scenario_raw
   \<and> index_of col_date (map strip (header scenario_raw)) = Some 0
   \<and> lines scenario_raw ! 0 ! 0 = Str txt_utc
   \<and> scenario_parse txt_utc = Some (Aware (1704448800 * NS) 0)
   \<and> in_bounds (1704448800 * NS + tz_database Asia_Seoul (1704448800 * NS))
   \<and> Ts (1704481200 * NS) = Ts (1704448800 * NS + tz_database Asia_Seoul (1704448800 * NS))"
proof -
  have k: "0 < length (lines scenario_raw)" by (simp add: scenario_raw_def)
  have c: "lines scenario_raw ! 0 ! 0 = Str txt_utc" by (simp add: scenario_raw_def)
  have p: "scenario_parse txt_utc = Some (Aware (1704448800 * NS) 0)"
    by (simp add: scenario_parse_def)
  have t: "tz_database Asia_Seoul (1704448800 * NS) = 9 * 3600 * NS"
    by (rule tz_database_now) (simp add: NS_def)
  have b: "in_bounds (1704448800 * NS + tz_database Asia_Seoul (1704448800 * NS))"
    by (simp only: t) (simp add: in_bounds_def NS_def)
  have h: "\<forall>r. scenario_parse txt_utc = Some r \<longrightarrow> in_bounds (instant r) \<longrightarrow>
           in_bounds (instant r + tz_database Asia_Seoul (instant r))"
    using b by (simp add: p)
  show ?thesis
    using load_sheet_normalizes [OF scenario_loaded scenario_wf scenario_date_index k c h]
      scenario_loaded scenario_wf scenario_date_index c p b
    by simp
qed

lemma naive_loaded:
  "load_sheet scenario_parse (Inr naive_raw) =
     Inr ([], \<lparr>columns = REQUIRED_COLS, when_tz = None,
               rows = [[Ts (1704564000 * NS), NA, NA, NA, NA, NA]]\<rparr>)"
  by code_simp

theorem load_sheet_naive_counterexample:
  "scenario_parse txt_naive = Some (Naive (1704531600 * NS)) \<and>
   load_sheet scenario_parse (Inr naive_raw) =
     Inr ([], \<lparr>columns = REQUIRED_COLS, when_tz = None,
               rows = [[Ts (1704564000 * NS), NA, NA, NA, NA, NA]]\<rparr>) \<and>
   Ts (1704564000 * NS) \<noteq> Ts (1704531600 * NS)"
  using naive_loaded by (simp add: scenario_parse_def txt_naive_def txt_utc_def NS_def)

section \<open>Properties of filter_data\<close>

lemma map_nth_filter_upt:
  "map (\<lambda>k. xs ! k) (filter (\<lambda>k. P (xs ! k)) [0..<length xs]) = filter P xs"
proof (induction xs rule: rev_induct)
  case Nil
  then show ?case by simp
next
  case (snoc x xs)
  have f: "filter (\<lambda>k. P ((xs @ [x]) ! k)) [0..<length xs] = filter (\<lambda>k. P (xs ! k)) [0..<length xs]"
    by (rule filter_cong) (auto simp: nth_append)
  have m: "map (\<lambda>k. (xs @ [x]) ! k) (filter (\<lambda>k. P (xs ! k)) [0..<length xs])
         = map (\<lambda>k. xs ! k) (filter (\<lambda>k. P (xs ! k)) [0..<length xs])"
    by (rule map_cong) (auto simp: nth_append)
  show ?case using snoc f m by simp
qed

lemma filter_keys_upt:
  "filter (\<lambda>k. P (map f xs ! k)) [0..<length xs] = filter (\<lambda>k. P (f (xs ! k))) [0..<length xs]"
  by (rule filter_cong) auto

lemma nargsort_rows:
  assumes "set (argsort (map (\<lambda>r. the (key r)) (rev (filter (\<lambda>r. key r \<noteq> None) rs))))
            \<subseteq> {0..<length (filter (\<lambda>r. key r \<noteq> None) rs)}"
  shows "map (\<lambda>k. rs ! k) (nargsort argsort (map key rs)) =
     (let q = rev (filter (\<lambda>r. key r \<noteq> None) rs)
      in rev (map (\<lambda>j. q ! j) (argsort (map (\<lambda>r. the (key r)) q)))
         @ filter (\<lambda>r. key r = None) rs)"
proof -
  let ?K = "map key rs"
  let ?nnK = "filter (\<lambda>k. ?K ! k \<noteq> None) [0..<length ?K]"
  let ?naK = "filter (\<lambda>k. ?K ! k = None) [0..<length ?K]"
  let ?nn = "filter (\<lambda>k. key (rs ! k) \<noteq> None) [0..<length rs]"
  let ?na = "filter (\<lambda>k. key (rs ! k) = None) [0..<length rs]"
  let ?ps = "filter (\<lambda>r. key r \<noteq> None) rs"
  let ?q = "rev ?ps"
  let ?perm = "argsort (map (\<lambda>r. the (key r)) ?q)"
  have e1: "?nnK = ?nn" by (rule filter_cong) auto
  have e2: "?naK = ?na" by (rule filter_cong) auto
  have ps: "map (\<lambda>k. rs ! k) ?nn = ?ps" by (rule map_nth_filter_upt)
  have ms: "map (\<lambda>k. rs ! k) ?na = filter (\<lambda>r. key r = None) rs" by (rule map_nth_filter_upt)
  have nn_keys: "map (\<lambda>k. the (?K ! k)) ?nn = map (\<lambda>r. the (key r)) ?ps"
  proof -
    have "map (\<lambda>k. the (?K ! k)) ?nn = map (\<lambda>k. the (key (rs ! k))) ?nn"
      by (rule map_cong) auto
    also have "\<dots> = map (\<lambda>r. the (key r)) (map (\<lambda>k. rs ! k) ?nn)"
      by (simp only: map_map o_def)
    also have "\<dots> = map (\<lambda>r. the (key r)) ?ps"
      by (simp only: ps)
    finally show ?thesis .
  qed
  have keys_r: "rev (map (\<lambda>k. the (?K ! k)) ?nn) = map (\<lambda>r. the (key r)) ?q"
    by (simp only: nn_keys rev_map)
  have len: "length ?nn = length ?ps" using ps by (metis length_map)
  have inr: "\<And>j. j \<in> set ?perm \<Longrightarrow> j < length ?ps" using assms by auto
  have pick: "map (\<lambda>k. rs ! k) (map (\<lambda>j. rev ?nn ! j) ?perm) = map (\<lambda>j. ?q ! j) ?perm"
  proof -
    have "\<And>j. j \<in> set ?perm \<Longrightarrow> rs ! (rev ?nn ! j) = ?q ! j"
    proof -
      fix j assume "j \<in> set ?perm"
      then have j: "j < length (rev ?nn)" using inr len by simp
      have "rs ! (rev ?nn ! j) = map (\<lambda>k. rs ! k) (rev ?nn) ! j" using j by simp
      also have "\<dots> = ?q ! j" by (simp only: rev_map [symmetric] ps)
      finally show "rs ! (rev ?nn ! j) = ?q ! j" .
    qed
    then have "map (\<lambda>j. rs ! (rev ?nn ! j)) ?perm = map (\<lambda>j. ?q ! j) ?perm"
      by (intro map_cong) auto
    then show ?thesis by (simp only: map_map o_def)
  qed
  have "nargsort argsort ?K =
      rev (map (\<lambda>j. rev ?nnK ! j) (argsort (rev (map (\<lambda>k. the (?K ! k)) ?nnK)))) @ ?naK"
    by (simp only: nargsort_def Let_def)
  then have "nargsort argsort ?K = rev (map (\<lambda>j. rev ?nn ! j) ?perm) @ ?na"
    by (simp only: e1 e2 keys_r)
  then have "map (\<lambda>k. rs ! k) (nargsort argsort ?K) =
      rev (map (\<lambda>k. rs ! k) (map (\<lambda>j. rev ?nn ! j) ?perm)) @ map (\<lambda>k. rs ! k) ?na"
    by (simp only: map_append rev_map)
  then have "map (\<lambda>k. rs ! k) (nargsort argsort ?K) =
      rev (map (\<lambda>j. ?q ! j) ?perm) @ filter (\<lambda>r. key r = None) rs"
    by (simp only: pick ms)
  then show ?thesis by (simp only: Let_def)
qed

lemma argsort_ok_set: "argsort_ok argsort \<Longrightarrow> set (argsort ks) = {0..<length ks}"
proof -
  assume "argsort_ok argsort"
  then have "mset (argsort ks) = mset [0..<length ks]" by (simp add: argsort_ok_def)
  then have "set (argsort ks) = set [0..<length ks]" by (rule mset_eq_setD)
  then show ?thesis by simp
qed

lemma argsort_ok_mset:
  assumes "argsort_ok argsort" and "length ks = length q"
  shows "mset (map (\<lambda>j. q ! j) (argsort ks)) = mset q"
proof -
  have "mset (argsort ks) = mset [0..<length q]"
    using assms by (simp add: argsort_ok_def)
  then have "image_mset (\<lambda>j. q ! j) (mset (argsort ks)) = image_mset (\<lambda>j. q ! j) (mset [0..<length q])"
    by simp
  then have "mset (map (\<lambda>j. q ! j) (argsort ks)) = mset (map (\<lambda>j. q ! j) [0..<length q])"
    by simp
  then show ?thesis by (simp add: map_nth)
qed

lemma argsort_ok_sorted:
  assumes "argsort_ok argsort"
  shows "sorted (map f (map (\<lambda>j. q ! j) (argsort (map f q))))"
proof -
  have s: "sorted (map (\<lambda>j. map f q ! j) (argsort (map f q)))"
    using assms by (simp add: argsort_ok_def)
  have "map (\<lambda>j. f (q ! j)) (argsort (map f q)) = map (\<lambda>j. map f q ! j) (argsort (map f q))"
    using argsort_ok_set [OF assms, of "map f q"] by (intro map_cong) auto
  then have "map f (map (\<lambda>j. q ! j) (argsort (map f q))) = map (\<lambda>j. map f q ! j) (argsort (map f q))"
    by (simp only: map_map o_def)
  then show ?thesis using s by (simp only:)
qed

lemma sort_values_rows:
  assumes "argsort_ok argsort" and "index_of col_date (columns df) = Some i"
  shows "sort_values argsort df = Inr (df\<lparr>rows := sort_rows argsort i (rows df)\<rparr>)"
proof -
  let ?key = "\<lambda>r. when_of (r ! i)"
  have "set (argsort (map (\<lambda>r. the (?key r)) (rev (filter (\<lambda>r. ?key r \<noteq> None) (rows df)))))
      \<subseteq> {0..<length (filter (\<lambda>r. ?key r \<noteq> None) (rows df))}"
    using argsort_ok_set [OF assms(1)] by simp
  then have "map (\<lambda>k. rows df ! k) (nargsort argsort (map ?key (rows df))) = sort_rows argsort i (rows df)"
    using nargsort_rows [of argsort ?key "rows df"] by (simp only: sort_rows_def)
  then show ?thesis using assms(2) by (simp add: sort_values_def)
qed

lemma sort_rows_mset:
  assumes "argsort_ok argsort"
  shows "mset (sort_rows argsort i rs) = mset rs"
proof -
  let ?q = "rev (filter (\<lambda>r. when_of (r ! i) \<noteq> None) rs)"
  have "mset (map (\<lambda>j. ?q ! j) (argsort (map (\<lambda>r. the (when_of (r ! i))) ?q))) = mset ?q"
    by (rule argsort_ok_mset [OF assms]) simp
  then have "mset (sort_rows argsort i rs) =
      mset (filter (\<lambda>r. when_of (r ! i) \<noteq> None) rs) + mset (filter (\<lambda>r. when_of (r ! i) = None) rs)"
    by (simp add: sort_rows_def Let_def del: not_None_eq)
  then show ?thesis by (simp del: not_None_eq)
qed

lemma coerce_naive:
  "tz series = None \<Longrightarrow> coerce_range_like_series_tz start end series =
     (\<lparr>tzinfo = None, ts_value = start * DAY\<rparr>, \<lparr>tzinfo = None, ts_value = end * DAY + DAY - NS\<rparr>)"
  by (simp add: coerce_range_like_series_tz_def Timestamp_def Let_def)

lemma coerce_aware:
  "tz series = Some z \<Longrightarrow> coerce_range_like_series_tz start end series =
     (\<lparr>tzinfo = Some z, ts_value = start * DAY - utcoffset z (start * DAY)\<rparr>,
      \<lparr>tzinfo = Some z, ts_value = end * DAY + DAY - NS - utcoffset z (end * DAY + DAY - NS)\<rparr>)"
  by (simp add: coerce_range_like_series_tz_def Timestamp_def Let_def ts_tz_localize_def)

lemma utcoffset_const: "utcoffset z a = utcoffset z b"
  by (cases z) simp_all

lemma date_test:
  assumes "coerce_range_like_series_tz start end \<lparr>tz = z, vals = vs\<rparr> = (s, e)"
  shows "comparable z s \<and> comparable z e \<and>
         (notna c \<and> ge_ts c s \<and> le_ts c e \<longleftrightarrow> passes_date z (Some (start, end)) c)"
proof (cases z)
  case None
  then have "s = \<lparr>tzinfo = None, ts_value = start * DAY\<rparr>"
     "e = \<lparr>tzinfo = None, ts_value = end * DAY + DAY - NS\<rparr>"
    using assms coerce_naive [of "\<lparr>tz = z, vals = vs\<rparr>" start "end"] by simp_all
  then show ?thesis using None
    by (cases c) (simp_all add: comparable_def ge_ts_def le_ts_def passes_date_def wall_clock_def DAY_def add.commute)
next
  case (Some zone)
  then have se: "s = \<lparr>tzinfo = Some zone, ts_value = start * DAY - utcoffset zone (start * DAY)\<rparr>"
     "e = \<lparr>tzinfo = Some zone, ts_value = end * DAY + DAY - NS - utcoffset zone (end * DAY + DAY - NS)\<rparr>"
    using assms coerce_aware [of "\<lparr>tz = z, vals = vs\<rparr>" zone start "end"] by simp_all
  show ?thesis
  proof (cases c)
    case (Ts v)
    have "utcoffset zone (start * DAY) = utcoffset zone v"
      "utcoffset zone (end * DAY + DAY - NS) = utcoffset zone v"
      by (rule utcoffset_const)+
    then show ?thesis using Some se Ts
      by (auto simp: comparable_def ge_ts_def le_ts_def passes_date_def wall_clock_def DAY_def NS_def)
  qed (simp_all add: Some se comparable_def ge_ts_def le_ts_def passes_date_def)
qed

lemma isin_passes: "ts \<noteq> [] \<Longrightarrow> isin ts c = passes_topic (Some ts) c"
  by (cases c) (simp_all add: passes_topic_def)

lemma filter_topics_rows:
  assumes "topics = None \<or> topics = Some [] \<or> index_of col_topic (columns df) = Some j"
  shows "filter_topics topics df = Inr (df\<lparr>rows := filter (\<lambda>r. passes_topic topics (r ! j)) (rows df)\<rparr>)"
proof (cases topics)
  case None
  then show ?thesis by (simp add: filter_topics_def passes_topic_def)
next
  case (Some ts)
  show ?thesis
  proof (cases "ts = []")
    case True
    then show ?thesis using Some by (simp add: filter_topics_def passes_topic_def)
  next
    case False
    then have "index_of col_topic (columns df) = Some j" using assms Some by simp
    then show ?thesis using Some False by (simp add: filter_topics_def isin_passes)
  qed
qed

lemma filter_dates_rows:
  assumes "index_of col_date (columns df) = Some i"
  shows "filter_dates date_range df =
     Inr (df\<lparr>rows := filter (\<lambda>r. passes_date (when_tz df) date_range (r ! i)) (rows df)\<rparr>)"
proof (cases date_range)
  case None
  then show ?thesis by (simp add: filter_dates_def passes_date_def)
next
  case (Some p)
  obtain start "end" where p: "p = (start, end)" by (cases p)
  let ?series = "\<lparr>tz = when_tz df, vals = map (\<lambda>r. when_of (r ! i)) (rows df)\<rparr>"
  obtain s e where se: "coerce_range_like_series_tz start end ?series = (s, e)"
    by (cases "coerce_range_like_series_tz start end ?series")
  have t: "comparable (when_tz df) s" "comparable (when_tz df) e"
    "\<And>c. (notna c \<and> ge_ts c s \<and> le_ts c e) = passes_date (when_tz df) (Some (start, end)) c"
    using date_test [OF se] by blast+
  show ?thesis using Some p assms se t by (simp add: filter_dates_def)
qed

lemma filter_data_rows:
  assumes "argsort_ok argsort" and "index_of col_date (columns df) = Some i"
    and "topics = None \<or> topics = Some [] \<or> index_of col_topic (columns df) = Some j"
  shows "filter_data argsort df topics date_range =
     Inr (df\<lparr>rows := sort_rows argsort i
            (filter (\<lambda>r. passes_topic topics (r ! j) \<and> passes_date (when_tz df) date_range (r ! i))
               (rows df))\<rparr>)"
proof -
  let ?d1 = "df\<lparr>rows := filter (\<lambda>r. passes_topic topics (r ! j)) (rows df)\<rparr>"
  let ?d2 = "?d1\<lparr>rows := filter (\<lambda>r. passes_date (when_tz ?d1) date_range (r ! i)) (rows ?d1)\<rparr>"
  have 1: "filter_topics topics df = Inr ?d1" by (rule filter_topics_rows [OF assms(3)])
  have 2: "filter_dates date_range ?d1 = Inr ?d2"
    by (rule filter_dates_rows) (simp add: assms(2))
  have 3: "sort_values argsort ?d2 = Inr (?d2\<lparr>rows := sort_rows argsort i (rows ?d2)\<rparr>)"
    by (rule sort_values_rows [OF assms(1)]) (simp add: assms(2))
  have "filter (\<lambda>r. passes_date (when_tz df) date_range (r ! i))
          (filter (\<lambda>r. passes_topic topics (r ! j)) (rows df))
      = filter (\<lambda>r. passes_topic topics (r ! j) \<and> passes_date (when_tz df) date_range (r ! i)) (rows df)"
    by (simp add: conj_commute)
  then show ?thesis using 1 2 3 by (simp add: filter_data_def then_do_def)
qed

lemma filter_data_mset:
  assumes "argsort_ok argsort" and "index_of col_date (columns df) = Some i"
    and "topics = None \<or> topics = Some [] \<or> index_of col_topic (columns df) = Some j"
  shows "\<exists>df'. filter_data argsort df topics date_range = Inr df' \<and>
      columns df' = columns df \<and> when_tz df' = when_tz df \<and>
      mset (rows df') =
        mset (filter (\<lambda>r. passes_topic topics (r ! j) \<and> passes_date (when_tz df) date_range (r ! i))
               (rows df))"
  using filter_data_rows [OF assms] sort_rows_mset [OF assms(1)] by simp

lemma stable_argsort_ok: "argsort_ok stable_argsort"
  by (simp add: argsort_ok_def stable_argsort_def)

lemma scenario_frame_date: "index_of col_date (columns scenario_frame) = Some 0"
  by (simp add: scenario_frame_def)

lemma scenario_frame_topic: "index_of col_topic (columns scenario_frame) = Some 1"
  by code_simp

text \<open>
  C5. With no topic selected (\<open>None\<close> or an empty list) the topic is no criterion: the
  result is the same in both cases, and its rows are the rows that pass the date test.
  With a non-empty selection the rows of the result are the rows whose topic cell is a
  string equal to one of the selected topics (and that pass the date test); none of them
  has a missing topic.
\<close>

theorem filter_data_topics:
  assumes "argsort_ok argsort" and "index_of col_date (columns df) = Some i"
    and "index_of col_topic (columns df) = Some j"
  shows "filter_data argsort df (Some []) date_range = filter_data argsort df None date_range
    \<and> (\<exists>df'. filter_data argsort df None date_range = Inr df' \<and>
          mset (rows df') =
            mset (filter (\<lambda>r. passes_date (when_tz df) date_range (r ! i)) (rows df)))
    \<and> (ts \<noteq> [] \<longrightarrow>
         (\<exists>df'. filter_data argsort df (Some ts) date_range = Inr df' \<and>
            mset (rows df') =
              mset (filter (\<lambda>r. (\<exists>s \<in> set ts. r ! j = Str s) \<and>
                                passes_date (when_tz df) date_range (r ! i)) (rows df)) \<and>
            (\<forall>r \<in> set (rows df'). r ! j \<noteq> NA)))"
proof -
  have a: "filter_data argsort df (Some []) date_range = filter_data argsort df None date_range"
    by (simp add: filter_data_def filter_topics_def)
  have b: "\<exists>df'. filter_data argsort df None date_range = Inr df' \<and>
          mset (rows df') =
            mset (filter (\<lambda>r. passes_date (when_tz df) date_range (r ! i)) (rows df))"
    using filter_data_mset [OF assms(1,2), of None j date_range]
    by (auto simp: passes_topic_def)
  have c: "\<exists>df'. filter_data argsort df (Some ts) date_range = Inr df' \<and>
            mset (rows df') =
              mset (filter (\<lambda>r. (\<exists>s \<in> set ts. r ! j = Str s) \<and>
                                passes_date (when_tz df) date_range (r ! i)) (rows df)) \<and>
            (\<forall>r \<in> set (rows df'). r ! j \<noteq> NA)" if ne: "ts \<noteq> []"
  proof -
    have p: "\<And>c. passes_topic (Some ts) c = (\<exists>s \<in> set ts. c = Str s)"
      using ne by (case_tac c) (auto simp: passes_topic_def)
    obtain df' where d: "filter_data argsort df (Some ts) date_range = Inr df'"
      "mset (rows df') =
        mset (filter (\<lambda>r. passes_topic (Some ts) (r ! j) \<and> passes_date (when_tz df) date_range (r ! i))
               (rows df))"
      using filter_data_mset [OF assms(1,2), of "Some ts" j date_range] assms(3) by auto
    have "set (rows df') =
        set (filter (\<lambda>r. passes_topic (Some ts) (r ! j) \<and> passes_date (when_tz df) date_range (r ! i))
               (rows df))"
      using d(2) by (rule mset_eq_setD)
    then have "\<forall>r \<in> set (rows df'). r ! j \<noteq> NA" using p by auto
    then show ?thesis using d p by simp
  qed
  show ?thesis using a b c by blast
qed

theorem filter_data_topics_witness:
  "argsort_ok stable_argsort \<and> index_of col_date (columns scenario_frame) = Some 0
   \<and> index_of col_topic (columns scenario_frame) = Some 1 \<and> [txt_politics] \<noteq> []
   \<and> (\<exists>df'. filter_data stable_argsort scenario_frame (Some [txt_politics]) None = Inr df' \<and>
         mset (rows df') =
           mset (filter (\<lambda>r. (\<exists>s \<in> set [txt_politics]. r ! 1 = Str s) \<and>
                             passes_date (when_tz scenario_frame) None (r ! 0)) (rows scenario_frame)))"
  using filter_data_topics [OF stable_argsort_ok scenario_frame_date scenario_frame_topic,
      where ts = "[txt_politics]" and date_range = None]
    stable_argsort_ok scenario_frame_date scenario_frame_topic
  by blast

text \<open>
  C3. With a range \<open>(start, end)\<close> the rows of the result are the rows (passing the topic
  test) whose date cell is a timestamp between \<open>start\<close> 00:00:00 and \<open>end\<close> 23:59:59, both
  included, read as wall-clock time of the column (for the tz-naive column that
  \<open>load_sheet\<close> returns, the value itself). No row of the result has a missing date.
\<close>

theorem filter_data_dates:
  assumes "argsort_ok argsort" and "index_of col_date (columns df) = Some i"
    and "topics = None \<or> topics = Some [] \<or> index_of col_topic (columns df) = Some j"
  shows "\<exists>df'. filter_data argsort df topics (Some (start, end)) = Inr df' \<and>
      mset (rows df') =
        mset (filter (\<lambda>r. passes_topic topics (r ! j) \<and>
                 (\<exists>v. r ! i = Ts v \<and> start * DAY \<le> wall_clock (when_tz df) v \<and>
                      wall_clock (when_tz df) v \<le> end * DAY + 86399 * NS)) (rows df)) \<and>
      (\<forall>r \<in> set (rows df'). r ! i \<noteq> NaT \<and> r ! i \<noteq> NA) \<and>
      wall_clock None = (\<lambda>v. v)"
proof -
  have p: "\<And>c. passes_date (when_tz df) (Some (start, end)) c =
       (\<exists>v. c = Ts v \<and> start * DAY \<le> wall_clock (when_tz df) v \<and>
            wall_clock (when_tz df) v \<le> end * DAY + 86399 * NS)"
    by (case_tac c) (simp_all add: passes_date_def)
  obtain df' where d: "filter_data argsort df topics (Some (start, end)) = Inr df'"
    "mset (rows df') =
       mset (filter (\<lambda>r. passes_topic topics (r ! j) \<and>
                passes_date (when_tz df) (Some (start, end)) (r ! i)) (rows df))"
    using filter_data_mset [OF assms, of "Some (start, end)"] by blast
  have "set (rows df') =
       set (filter (\<lambda>r. passes_topic topics (r ! j) \<and>
                passes_date (when_tz df) (Some (start, end)) (r ! i)) (rows df))"
    using d(2) by (rule mset_eq_setD)
  then have m: "\<forall>r \<in> set (rows df'). r ! i \<noteq> NaT \<and> r ! i \<noteq> NA"
    using p by auto
  have w: "wall_clock None = (\<lambda>v. v)" by (rule ext) (simp add: wall_clock_def)
  show ?thesis using d m w by (simp only: p) blast
qed

theorem filter_data_dates_witness:
  "argsort_ok stable_argsort \<and> index_of col_date (columns scenario_frame) = Some 0
   \<and> (\<exists>df'. filter_data stable_argsort scenario_frame None (Some (19728, 19728)) = Inr df' \<and>
         mset (rows df') =
           mset (filter (\<lambda>r. passes_topic None (r ! 1) \<and>
                 (\<exists>v. r ! 0 = Ts v \<and> 19728 * DAY \<le> wall_clock (when_tz scenario_frame) v \<and>
                      wall_clock (when_tz scenario_frame) v \<le> 19728 * DAY + 86399 * NS))
               (rows scenario_frame)) \<and>
         (\<forall>r \<in> set (rows df'). r ! 0 \<noteq> NaT \<and> r ! 0 \<noteq> NA))"
  using filter_data_dates [OF stable_argsort_ok scenario_frame_date,
      where topics = None and j = 1 and start = 19728 and ?end = 19728]
    stable_argsort_ok scenario_frame_date
  by blast

text \<open>
  C10. The bounds that the helper returns carry the \<open>tz\<close> of the series: none for a
  tz-naive series, the zone of the series for a tz-aware one, in which they denote
  \<open>start\<close> 00:00:00 and \<open>end\<close> 23:59:59 as wall-clock time. So the comparisons of
  \<open>filter_data\<close> never raise the \<open>TypeError\<close> of a comparison between tz-aware and
  tz-naive values.
\<close>

theorem coerce_range_matches_series:
  "tzinfo (fst (coerce_range_like_series_tz start end series)) = tz series
   \<and> tzinfo (snd (coerce_range_like_series_tz start end series)) = tz series
   \<and> wall_clock (tz series) (ts_value (fst (coerce_range_like_series_tz start end series)))
       = start * DAY
   \<and> wall_clock (tz series) (ts_value (snd (coerce_range_like_series_tz start end series)))
       = end * DAY + DAY - NS
   \<and> comparable (tz series) (fst (coerce_range_like_series_tz start end series))
   \<and> comparable (tz series) (snd (coerce_range_like_series_tz start end series))
   \<and> filter_dates date_range df \<noteq> Inl TypeError
   \<and> filter_data argsort df topics date_range \<noteq> Inl TypeError"
proof -
  have a: "tzinfo (fst (coerce_range_like_series_tz start end series)) = tz series
   \<and> tzinfo (snd (coerce_range_like_series_tz start end series)) = tz series
   \<and> wall_clock (tz series) (ts_value (fst (coerce_range_like_series_tz start end series)))
       = start * DAY
   \<and> wall_clock (tz series) (ts_value (snd (coerce_range_like_series_tz start end series)))
       = end * DAY + DAY - NS"
  proof (cases "tz series")
    case None
    then show ?thesis by (simp add: coerce_naive wall_clock_def)
  next
    case (Some z)
    have "utcoffset z (start * DAY - utcoffset z (start * DAY)) = utcoffset z (start * DAY)"
      "utcoffset z (end * DAY + DAY - NS - utcoffset z (end * DAY + DAY - NS))
         = utcoffset z (end * DAY + DAY - NS)"
      by (rule utcoffset_const)+
    then show ?thesis using Some by (simp add: coerce_aware wall_clock_def)
  qed
  then have b: "comparable (tz series) (fst (coerce_range_like_series_tz start end series))
   \<and> comparable (tz series) (snd (coerce_range_like_series_tz start end series))"
    by (simp add: comparable_def)
  have c: "filter_dates dr d \<noteq> Inl TypeError" for dr d
  proof (cases "index_of col_date (columns d)")
    case None
    then show ?thesis by (auto simp: filter_dates_def split: option.splits prod.splits)
  next
    case (Some i)
    then show ?thesis by (simp add: filter_dates_rows)
  qed
  have d: "filter_data argsort df topics date_range \<noteq> Inl TypeError"
  proof (cases "filter_topics topics df")
    case (Inl e)
    then have "e \<noteq> TypeError"
      by (auto simp: filter_topics_def split: option.splits if_splits)
    then show ?thesis using Inl by (simp add: filter_data_def then_do_def)
  next
    case (Inr d1)
    show ?thesis
    proof (cases "filter_dates date_range d1")
      case (Inl e)
      then have "e \<noteq> TypeError" using c [of date_range d1] by auto
      then show ?thesis using Inr Inl by (simp add: filter_data_def then_do_def)
    next
      case d2: (Inr d2)
      have "sort_values argsort d2 \<noteq> Inl TypeError"
        by (auto simp: sort_values_def split: option.splits)
      then show ?thesis using Inr d2 by (simp add: filter_data_def then_do_def)
    qed
  qed
  show ?thesis using a b c d by blast
qed

lemma sort_rows_split:
  assumes "argsort_ok argsort"
  shows "\<exists>ps. sort_rows argsort i rs = ps @ filter (\<lambda>r. \<not> present i r) rs \<and>
           mset ps = mset (filter (present i) rs) \<and>
           sorted (rev (map (when_at i) ps))"
proof -
  let ?q = "rev (filter (\<lambda>r. when_of (r ! i) \<noteq> None) rs)"
  let ?a = "map (\<lambda>j. ?q ! j) (argsort (map (\<lambda>r. the (when_of (r ! i))) ?q))"
  have m: "mset ?a = mset ?q" by (rule argsort_ok_mset [OF assms]) simp
  have s: "sorted (map (\<lambda>r. the (when_of (r ! i))) ?a)" by (rule argsort_ok_sorted [OF assms])
  have e: "sort_rows argsort i rs = rev ?a @ filter (\<lambda>r. when_of (r ! i) = None) rs"
    by (simp only: sort_rows_def Let_def)
  have "mset (rev ?a) = mset (filter (\<lambda>r. when_of (r ! i) \<noteq> None) rs)"
    using m by (simp only: mset_rev)
  moreover have "sorted (rev (map (\<lambda>r. the (when_of (r ! i))) (rev ?a)))"
    using s by (simp only: rev_map [symmetric] rev_rev_ident)
  ultimately show ?thesis
    unfolding present_def when_at_def using e by (intro exI [of _ "rev ?a"]) (simp del: not_None_eq)
qed

lemma filter_present_split:
  assumes "\<forall>r \<in> set ps. present i r"
  shows "filter (present i) (ps @ filter (\<lambda>r. \<not> present i r) rs) = ps"
    and "filter (\<lambda>r. \<not> present i r) (ps @ filter (\<lambda>r. \<not> present i r) rs)
          = filter (\<lambda>r. \<not> present i r) rs"
proof -
  have a: "filter (present i) ps = ps" using assms by (simp add: filter_id_conv)
  have b: "filter (\<lambda>r. \<not> present i r) ps = []" using assms by (simp add: filter_empty_conv)
  have c: "filter (present i) (filter (\<lambda>r. \<not> present i r) rs) = []"
    by (simp add: filter_empty_conv)
  show "filter (present i) (ps @ filter (\<lambda>r. \<not> present i r) rs) = ps"
    using a c by simp
  show "filter (\<lambda>r. \<not> present i r) (ps @ filter (\<lambda>r. \<not> present i r) rs)
          = filter (\<lambda>r. \<not> present i r) rs"
    using b by simp
qed

lemma sorted_desc_unique:
  assumes "mset xs = mset ys" and "sorted (rev xs)" and "sorted (rev (ys :: int list))"
  shows "xs = ys"
proof -
  have "sort (rev ys) = rev xs"
    by (rule properties_for_sort) (simp_all add: assms)
  moreover have "sort (rev ys) = rev ys"
    by (rule properties_for_sort) (simp_all add: assms)
  ultimately have "rev xs = rev ys" by simp
  then show ?thesis by simp
qed

lemma same_keys_distinct:
  assumes "mset xs = mset ys" and "map f xs = map f ys" and "distinct (map f xs)"
  shows "xs = ys"
proof -
  have s: "set ys = set xs" using assms(1) by (metis set_mset_mset)
  have "inj_on f (set xs)" using assms(3) by (simp add: distinct_map)
  then have "inj_on f (set xs \<union> set ys)" using s by simp
  then show ?thesis using assms(2) by (simp add: inj_on_map_eq_map)
qed

text \<open>Sorting what is sorted: the same timestamps in the same places.\<close>

lemma sort_rows_twice:
  assumes "argsort_ok argsort"
  shows "\<exists>ps ps'. sort_rows argsort i rs = ps @ filter (\<lambda>r. \<not> present i r) rs \<and>
      sort_rows argsort i (sort_rows argsort i rs) = ps' @ filter (\<lambda>r. \<not> present i r) rs \<and>
      mset ps' = mset ps \<and> map (when_at i) ps' = map (when_at i) ps \<and>
      mset ps = mset (filter (present i) rs) \<and> sorted (rev (map (when_at i) ps))"
proof -
  let ?M = "filter (\<lambda>r. \<not> present i r) rs"
  obtain ps where ps: "sort_rows argsort i rs = ps @ ?M"
    "mset ps = mset (filter (present i) rs)" "sorted (rev (map (when_at i) ps))"
    using sort_rows_split [OF assms] by blast
  have "set ps = set (filter (present i) rs)" using ps(2) by (rule mset_eq_setD)
  then have pr: "\<forall>r \<in> set ps. present i r" by simp
  obtain ps' where ps': "sort_rows argsort i (ps @ ?M) = ps' @ filter (\<lambda>r. \<not> present i r) (ps @ ?M)"
    "mset ps' = mset (filter (present i) (ps @ ?M))" "sorted (rev (map (when_at i) ps'))"
    using sort_rows_split [OF assms] by blast
  have 1: "sort_rows argsort i (ps @ ?M) = ps' @ ?M"
    using ps'(1) by (simp only: filter_present_split(2) [OF pr])
  have 2: "mset ps' = mset ps"
    using ps'(2) by (simp only: filter_present_split(1) [OF pr])
  have "mset (map (when_at i) ps') = mset (map (when_at i) ps)" using 2 by simp
  then have 3: "map (when_at i) ps' = map (when_at i) ps"
    using ps'(3) ps(3) by (rule sorted_desc_unique)
  show ?thesis using ps 1 2 3 by auto
qed

lemma insort_key_cong_set:
  assumes "f x = g x" and "\<forall>y \<in> set xs. f y = g y"
  shows "insort_key f x xs = insort_key g x xs"
  using assms by (induction xs) auto

lemma sort_key_cong_set:
  assumes "\<forall>y \<in> set xs. f y = g y"
  shows "sort_key f xs = sort_key g xs"
  using assms
proof (induction xs)
  case Nil
  then show ?case by simp
next
  case (Cons x xs)
  then have "sort_key f xs = sort_key g xs" by simp
  moreover have "insort_key f x (sort_key g xs) = insort_key g x (sort_key g xs)"
    by (rule insort_key_cong_set) (use Cons.prems in auto)
  ultimately show ?case by simp
qed

lemma map_insort_key: "map h (insort_key (\<lambda>x. f (h x)) x xs) = insort_key f (h x) (map h xs)"
  by (induction xs) auto

lemma map_sort_key: "map h (sort_key (\<lambda>x. f (h x)) xs) = sort_key f (map h xs)"
  by (induction xs) (auto simp: map_insort_key)

lemma stable_argsort_rows: "map (\<lambda>j. q ! j) (stable_argsort (map f q)) = sort_key f q"
proof -
  have "sort_key (\<lambda>j. map f q ! j) [0..<length q] = sort_key (\<lambda>j. f (q ! j)) [0..<length q]"
    by (rule sort_key_cong_set) simp
  then have "map (\<lambda>j. q ! j) (stable_argsort (map f q))
      = map (\<lambda>j. q ! j) (sort_key (\<lambda>j. f (q ! j)) [0..<length q])"
    by (simp add: stable_argsort_def)
  also have "\<dots> = sort_key f (map (\<lambda>j. q ! j) [0..<length q])" by (rule map_sort_key)
  finally show ?thesis by (simp add: map_nth)
qed

lemma sort_rows_stable:
  "sort_rows stable_argsort i rs =
     rev (sort_key (when_at i) (rev (filter (present i) rs))) @ filter (\<lambda>r. \<not> present i r) rs"
proof -
  have "sort_rows stable_argsort i rs =
      rev (sort_key (\<lambda>r. the (when_of (r ! i))) (rev (filter (\<lambda>r. when_of (r ! i) \<noteq> None) rs)))
       @ filter (\<lambda>r. when_of (r ! i) = None) rs"
    by (simp only: sort_rows_def Let_def stable_argsort_rows)
  then show ?thesis unfolding present_def when_at_def by (simp del: not_None_eq)
qed

lemma sort_rows_stable_ties:
  "filter (\<lambda>r. when_of (r ! i) = Some t) (sort_rows stable_argsort i rs)
     = filter (\<lambda>r. when_of (r ! i) = Some t) rs"
proof -
  let ?P = "filter (present i) rs"
  have e: "\<And>r. (when_of (r ! i) = Some t) = (present i r \<and> when_at i r = t)"
    by (auto simp: present_def when_at_def)
  have "filter (\<lambda>r. when_at i r = t) (rev (sort_key (when_at i) (rev ?P)))
      = rev (filter (\<lambda>r. when_at i r = t) (sort_key (when_at i) (rev ?P)))"
    by (simp only: rev_filter)
  also have "\<dots> = rev (filter (\<lambda>r. when_at i r = t) (rev ?P))"
    by (simp only: sort_key_stable)
  also have "\<dots> = filter (\<lambda>r. when_at i r = t) ?P"
    by (simp only: rev_filter rev_rev_ident)
  finally have k: "filter (\<lambda>r. when_at i r = t) (rev (sort_key (when_at i) (rev ?P)))
      = filter (\<lambda>r. when_at i r = t) ?P" .
  have pr: "\<forall>r \<in> set (rev (sort_key (when_at i) (rev ?P))). present i r" by simp
  have "filter (\<lambda>r. present i r \<and> when_at i r = t) (sort_rows stable_argsort i rs)
      = filter (\<lambda>r. when_at i r = t) (filter (present i) (sort_rows stable_argsort i rs))"
    by (simp add: conj_commute)
  also have "\<dots> = filter (\<lambda>r. when_at i r = t) (rev (sort_key (when_at i) (rev ?P)))"
    by (simp only: sort_rows_stable filter_present_split(1) [OF pr])
  also have "\<dots> = filter (\<lambda>r. when_at i r = t) ?P" by (rule k)
  also have "\<dots> = filter (\<lambda>r. present i r \<and> when_at i r = t) rs"
    by (simp add: conj_commute)
  finally show ?thesis by (simp only: e)
qed

lemma sort_rows_stable_idem:
  "sort_rows stable_argsort i (sort_rows stable_argsort i rs) = sort_rows stable_argsort i rs"
proof -
  let ?P = "filter (present i) rs"
  let ?S = "rev (sort_key (when_at i) (rev ?P))"
  let ?M = "filter (\<lambda>r. \<not> present i r) rs"
  have pr: "\<forall>r \<in> set ?S. present i r" by simp
  have "sort_rows stable_argsort i (?S @ ?M)
      = rev (sort_key (when_at i) (rev (filter (present i) (?S @ ?M))))
        @ filter (\<lambda>r. \<not> present i r) (?S @ ?M)"
    by (rule sort_rows_stable)
  also have "\<dots> = rev (sort_key (when_at i) (rev ?S)) @ ?M"
    by (simp only: filter_present_split [OF pr])
  also have "sort_key (when_at i) (rev ?S) = rev ?S"
    by (rule sort_key_id_if_sorted) simp
  finally show ?thesis by (simp only: sort_rows_stable rev_rev_ident)
qed

lemma present_keys:
  assumes "\<forall>r \<in> set ps. present i r"
  shows "map (\<lambda>r. when_of (r ! i)) ps = map (\<lambda>r. Some (when_at i r)) ps"
  using assms by (intro map_cong) (auto simp: present_def when_at_def)

lemma sort_rows_keeps:
  assumes "argsort_ok argsort"
  shows "filter P (sort_rows argsort i (filter P rs)) = sort_rows argsort i (filter P rs)"
proof -
  have "mset (sort_rows argsort i (filter P rs)) = mset (filter P rs)"
    by (rule sort_rows_mset [OF assms])
  then have s: "set (sort_rows argsort i (filter P rs)) = set (filter P rs)"
    by (rule mset_eq_setD)
  have "\<forall>r \<in> set (sort_rows argsort i (filter P rs)). P r"
    unfolding s by simp
  then show ?thesis by (simp only: filter_id_conv)
qed

lemma filter_data_twice:
  assumes "argsort_ok argsort" and "index_of col_date (columns df) = Some i"
    and "topics = None \<or> topics = Some [] \<or> index_of col_topic (columns df) = Some j"
  shows "\<exists>F. filter_data argsort df topics date_range = Inr (df\<lparr>rows := sort_rows argsort i F\<rparr>) \<and>
    filter_data argsort (df\<lparr>rows := sort_rows argsort i F\<rparr>) topics date_range
      = Inr (df\<lparr>rows := sort_rows argsort i (sort_rows argsort i F)\<rparr>)"
proof -
  define pass where "pass = (\<lambda>r. passes_topic topics (r ! j) \<and> passes_date (when_tz df) date_range (r ! i))"
  define F where "F = filter pass (rows df)"
  define d1 where "d1 = df\<lparr>rows := sort_rows argsort i F\<rparr>"
  have c1: "columns d1 = columns df" and t1: "when_tz d1 = when_tz df"
    and r1: "rows d1 = sort_rows argsort i F"
    by (simp_all add: d1_def)
  have 1: "filter_data argsort df topics date_range = Inr d1"
    unfolding d1_def F_def pass_def by (rule filter_data_rows [OF assms])
  have i1: "index_of col_date (columns d1) = Some i" using assms(2) by (simp only: c1)
  have j1: "topics = None \<or> topics = Some [] \<or> index_of col_topic (columns d1) = Some j"
    using assms(3) by (simp only: c1)
  have "filter_data argsort d1 topics date_range =
      Inr (d1\<lparr>rows := sort_rows argsort i
         (filter (\<lambda>r. passes_topic topics (r ! j) \<and> passes_date (when_tz d1) date_range (r ! i))
            (rows d1))\<rparr>)"
    by (rule filter_data_rows [OF assms(1) i1 j1])
  then have "filter_data argsort d1 topics date_range =
      Inr (d1\<lparr>rows := sort_rows argsort i (filter pass (sort_rows argsort i (filter pass (rows df))))\<rparr>)"
    by (simp only: t1 r1 F_def pass_def)
  then have "filter_data argsort d1 topics date_range =
      Inr (d1\<lparr>rows := sort_rows argsort i (sort_rows argsort i F)\<rparr>)"
    by (simp only: sort_rows_keeps [OF assms(1)] F_def)
  moreover have "d1\<lparr>rows := sort_rows argsort i (sort_rows argsort i F)\<rparr>
      = df\<lparr>rows := sort_rows argsort i (sort_rows argsort i F)\<rparr>"
    by (simp add: d1_def)
  ultimately have 2: "filter_data argsort d1 topics date_range =
      Inr (df\<lparr>rows := sort_rows argsort i (sort_rows argsort i F)\<rparr>)"
    by (simp only:)
  show ?thesis
    by (rule exI [of _ F]) (use 1 2 in \<open>simp only: d1_def\<close>)
qed

text \<open>
  C4, as the code has it. The rows of the result are the rows with a timestamp, in
  descending order of the timestamps, followed by the rows without a timestamp, these in
  the order of the input. The rows with equal timestamps are in an order that the
  default \<open>kind="quicksort"\<close> leaves open; they are in the order of the input when the
  sort is the stable one.
\<close>

theorem filter_data_sorted:
  assumes "argsort_ok argsort" and "index_of col_date (columns df) = Some i"
    and "topics = None \<or> topics = Some [] \<or> index_of col_topic (columns df) = Some j"
  shows "\<exists>df' ps F. filter_data argsort df topics date_range = Inr df'
     \<and> F = filter (\<lambda>r. passes_topic topics (r ! j) \<and>
                        passes_date (when_tz df) date_range (r ! i)) (rows df)
     \<and> rows df' = ps @ filter (\<lambda>r. \<not> present i r) F
     \<and> mset ps = mset (filter (present i) F)
     \<and> sorted (rev (map (when_at i) ps))
     \<and> (argsort = stable_argsort \<longrightarrow>
          (\<forall>t. filter (\<lambda>r. when_of (r ! i) = Some t) (rows df')
                = filter (\<lambda>r. when_of (r ! i) = Some t) F))"
proof -
  define F where "F = filter (\<lambda>r. passes_topic topics (r ! j) \<and>
                        passes_date (when_tz df) date_range (r ! i)) (rows df)"
  define d where "d = df\<lparr>rows := sort_rows argsort i F\<rparr>"
  have r: "rows d = sort_rows argsort i F" by (simp add: d_def)
  have 1: "filter_data argsort df topics date_range = Inr d"
    unfolding d_def F_def by (rule filter_data_rows [OF assms])
  obtain ps where ps: "sort_rows argsort i F = ps @ filter (\<lambda>r. \<not> present i r) F"
    "mset ps = mset (filter (present i) F)" "sorted (rev (map (when_at i) ps))"
    using sort_rows_split [OF assms(1)] by blast
  have st: "argsort = stable_argsort \<longrightarrow>
          (\<forall>t. filter (\<lambda>r. when_of (r ! i) = Some t) (rows d)
                = filter (\<lambda>r. when_of (r ! i) = Some t) F)"
    by (simp only: r) (simp add: sort_rows_stable_ties)
  have 2: "rows d = ps @ filter (\<lambda>r. \<not> present i r) F" using ps(1) by (simp only: r)
  show ?thesis
    apply (rule exI [of _ d])
    apply (rule exI [of _ ps])
    apply (rule exI [of _ F])
    using 1 2 ps(2,3) st F_def apply (intro conjI)
         apply assumption+
    done
qed

lemma scenario_topics_None:
  "(None :: str list option) = None \<or> (None :: str list option) = Some []
    \<or> index_of col_topic (columns scenario_frame) = Some 1"
  by simp

theorem filter_data_sorted_witness:
  "argsort_ok stable_argsort \<and> index_of col_date (columns scenario_frame) = Some 0
   \<and> (\<exists>df' ps F. filter_data stable_argsort scenario_frame None None = Inr df'
     \<and> F = filter (\<lambda>r. passes_topic None (r ! 1) \<and>
                        passes_date (when_tz scenario_frame) None (r ! 0)) (rows scenario_frame)
     \<and> rows df' = ps @ filter (\<lambda>r. \<not> present 0 r) F
     \<and> mset ps = mset (filter (present 0) F)
     \<and> sorted (rev (map (when_at 0) ps))
     \<and> (stable_argsort = stable_argsort \<longrightarrow>
          (\<forall>t. filter (\<lambda>r. when_of (r ! 0) = Some t) (rows df')
                = filter (\<lambda>r. when_of (r ! 0) = Some t) F)))"
  apply (intro conjI)
    apply (rule stable_argsort_ok)
   apply (rule scenario_frame_date)
  apply (rule filter_data_sorted [OF stable_argsort_ok scenario_frame_date scenario_topics_None])
  done

text \<open>
  Rows that all have the same timestamp come out in their order exactly when \<open>argsort\<close>
  returns the positions of equal keys in their order.
\<close>

lemma nth_map_id:
  assumes "distinct q" and "set a \<subseteq> {0..<length q}"
  shows "map (\<lambda>j. q ! j) a = q \<longleftrightarrow> a = [0..<length q]"
proof
  assume e: "map (\<lambda>j. q ! j) a = q"
  have l: "length a = length q" using e by (metis length_map)
  show "a = [0..<length q]"
  proof (rule nth_equalityI)
    show "length a = length [0..<length q]" using l by simp
  next
    fix k assume k: "k < length a"
    have ak: "a ! k < length q" using assms(2) k by (metis atLeastLessThan_iff nth_mem subsetD)
    have "map (\<lambda>j. q ! j) a ! k = q ! k" by (simp only: e)
    then have "q ! (a ! k) = q ! k" using k by simp
    then have "a ! k = k" using assms(1) ak k l by (simp add: nth_eq_iff_index_eq)
    then show "a ! k = [0..<length q] ! k" using k l by simp
  qed
next
  assume "a = [0..<length q]"
  then show "map (\<lambda>j. q ! j) a = q" by (simp add: map_nth)
qed

lemma tied_rows:
  assumes "argsort_ok argsort" and "\<forall>r \<in> set rs. when_of (r ! i) = Some t" and "distinct rs"
  shows "sort_rows argsort i rs = rs \<longleftrightarrow> argsort (replicate (length rs) t) = [0..<length rs]"
proof -
  let ?a = "argsort (replicate (length rs) t)"
  have p: "filter (\<lambda>r. when_of (r ! i) \<noteq> None) rs = rs" using assms(2) by (simp add: filter_id_conv)
  have m: "filter (\<lambda>r. when_of (r ! i) = None) rs = []" using assms(2) by (simp add: filter_empty_conv)
  have "map (\<lambda>r. the (when_of (r ! i))) (rev rs) = map (\<lambda>r. t) (rev rs)"
    by (rule map_cong) (use assms(2) in auto)
  then have k: "map (\<lambda>r. the (when_of (r ! i))) (rev rs) = replicate (length rs) t"
    by (simp add: map_replicate_const)
  have s: "sort_rows argsort i rs = rev (map (\<lambda>j. rev rs ! j) ?a)"
    by (simp only: sort_rows_def Let_def p m k append_Nil2)
  have a: "set ?a \<subseteq> {0..<length (rev rs)}"
    using argsort_ok_set [OF assms(1), of "replicate (length rs) t"] by simp
  have "sort_rows argsort i rs = rs \<longleftrightarrow> map (\<lambda>j. rev rs ! j) ?a = rev rs"
    by (simp only: s) (metis rev_rev_ident)
  also have "\<dots> \<longleftrightarrow> ?a = [0..<length (rev rs)]"
    by (rule nth_map_id) (use assms(3) a in simp_all)
  finally show ?thesis by simp
qed

lemma rows_update_same: "df\<lparr>rows := rs\<rparr> = df \<longleftrightarrow> rs = rows df"
  by (cases df) auto

lemma tied_order:
  assumes "argsort_ok argsort" and "index_of col_date (columns df) = Some i"
    and "\<forall>r \<in> set (rows df). when_of (r ! i) = Some t" and "distinct (rows df)"
  shows "filter_data argsort df None None = Inr (df\<lparr>rows := sort_rows argsort i (rows df)\<rparr>)"
    and "filter_data argsort df None None = Inr df \<longleftrightarrow>
         argsort (replicate (length (rows df)) t) = [0..<length (rows df)]"
proof -
  have "filter_data argsort df None None =
     Inr (df\<lparr>rows := sort_rows argsort i
            (filter (\<lambda>r. passes_topic None (r ! 0) \<and> passes_date (when_tz df) None (r ! i))
               (rows df))\<rparr>)"
    by (rule filter_data_rows [OF assms(1,2)]) simp
  then show f: "filter_data argsort df None None = Inr (df\<lparr>rows := sort_rows argsort i (rows df)\<rparr>)"
    by (simp add: passes_topic_def passes_date_def)
  show "filter_data argsort df None None = Inr df \<longleftrightarrow>
         argsort (replicate (length (rows df)) t) = [0..<length (rows df)]"
    using tied_rows [OF assms(1,3,4)] by (simp add: f rows_update_same)
qed

lemma tied_twice:
  assumes "argsort_ok argsort" and "index_of col_date (columns df) = Some i"
    and "\<forall>r \<in> set (rows df). when_of (r ! i) = Some t" and "distinct (rows df)"
  shows "\<exists>d1 d2. filter_data argsort df None None = Inr d1 \<and>
           filter_data argsort d1 None None = Inr d2 \<and>
           (d2 = d1 \<longleftrightarrow> argsort (replicate (length (rows df)) t) = [0..<length (rows df)])"
proof -
  define d1 where "d1 = df\<lparr>rows := sort_rows argsort i (rows df)\<rparr>"
  define d2 where "d2 = d1\<lparr>rows := sort_rows argsort i (rows d1)\<rparr>"
  have ms: "mset (rows d1) = mset (rows df)"
    using sort_rows_mset [OF assms(1), of i "rows df"] by (simp add: d1_def)
  have 1: "index_of col_date (columns d1) = Some i" using assms(2) by (simp add: d1_def)
  have 2: "\<forall>r \<in> set (rows d1). when_of (r ! i) = Some t"
    using assms(3) mset_eq_setD [OF ms] by simp
  have 3: "distinct (rows d1)" using assms(4) mset_eq_imp_distinct_iff [OF ms] by simp
  have l: "length (rows d1) = length (rows df)" using mset_eq_length [OF ms] .
  have f1: "filter_data argsort df None None = Inr d1"
    using tied_order(1) [OF assms] by (simp only: d1_def)
  have f2: "filter_data argsort d1 None None = Inr d2"
    using tied_order(1) [OF assms(1) 1 2 3] by (simp only: d2_def)
  have "d2 = d1 \<longleftrightarrow> filter_data argsort d1 None None = Inr d1"
    by (simp only: f2) auto
  also have "\<dots> \<longleftrightarrow> argsort (replicate (length (rows df)) t) = [0..<length (rows df)]"
    using tied_order(2) [OF assms(1) 1 2 3] by (simp only: l)
  finally show ?thesis using f1 f2 by blast
qed

lemma tied_frame_date: "index_of col_date (columns tied_frame) = Some 0"
  by (simp add: tied_frame_def REQUIRED_COLS_def)

lemma tied_frame_keys: "\<forall>r \<in> set (rows tied_frame). when_of (r ! 0) = Some (1704481200 * NS)"
  by (auto simp: tied_frame_def)

lemma tied_frame_distinct: "distinct (rows tied_frame)"
  by (simp add: tied_frame_def distinct_map inj_on_def)

lemma tied_frame_length: "length (rows tied_frame) = 17"
  by (simp add: tied_frame_def)

text \<open>
  On the seventeen rows of equal timestamps, the result of \<open>filter_data\<close> is the input
  exactly when \<open>argsort\<close> returns the seventeen positions in their order, and the filter
  applied twice gives the result of the filter applied once exactly then.
\<close>

lemma tied_frame_order:
  assumes "argsort_ok argsort"
  shows "filter_data argsort tied_frame None None = Inr tied_frame \<longleftrightarrow>
         argsort (replicate 17 (1704481200 * NS)) = [0..<17]"
  using tied_order(2) [OF assms tied_frame_date tied_frame_keys tied_frame_distinct]
  by (simp only: tied_frame_length)

lemma tied_frame_twice:
  assumes "argsort_ok argsort"
  shows "\<exists>d1 d2. filter_data argsort tied_frame None None = Inr d1 \<and>
           filter_data argsort d1 None None = Inr d2 \<and>
           (d2 = d1 \<longleftrightarrow> argsort (replicate 17 (1704481200 * NS)) = [0..<17])"
  using tied_twice [OF assms tied_frame_date tied_frame_keys tied_frame_distinct]
  by (simp only: tied_frame_length)

text \<open>
  An \<open>argsort\<close> that does what numpy promises and returns equal keys in another order
  than theirs.
\<close>

lemma argsort_ok_reversing: "argsort_ok (\<lambda>ks. sort_key (\<lambda>j. ks ! j) (rev [0..<length ks]))"
  by (simp add: argsort_ok_def)

lemma reversing_tied:
  "sort_key (\<lambda>j. replicate 17 (1704481200 * NS) ! j) (rev [0..<length (replicate 17 (1704481200 * NS :: int))])
     \<noteq> [0..<17]"
  by code_simp

theorem filter_data_ties_counterexample:
  "map (\<lambda>r. r ! 0) (rows tied_frame) = replicate 17 (Ts (1704481200 * NS)) \<and>
   (\<exists>argsort. argsort_ok argsort \<and> argsort (replicate 17 (1704481200 * NS)) \<noteq> [0..<17] \<and>
      filter_data argsort tied_frame None None \<noteq> Inr tied_frame)"
proof -
  let ?R = "\<lambda>ks :: int list. sort_key (\<lambda>j. ks ! j) (rev [0..<length ks])"
  have k: "map (\<lambda>r. r ! 0) (rows tied_frame) = replicate 17 (Ts (1704481200 * NS))"
    by code_simp
  have n: "?R (replicate 17 (1704481200 * NS)) \<noteq> [0..<17]" by (rule reversing_tied)
  have "filter_data ?R tied_frame None None \<noteq> Inr tied_frame"
    using tied_frame_order [OF argsort_ok_reversing] n by simp
  then show ?thesis using k n argsort_ok_reversing by blast
qed

text \<open>
  C8, as the code has it. Applying the same filter to its own result removes no row and
  adds none: the second result has the same rows, the same timestamps in the same places
  and the same rows without timestamp in the same order. It is the first result itself
  when no two rows of it have the same timestamp, and when the sort is the stable one;
  the default \<open>kind="quicksort"\<close> may reorder the rows with equal timestamps.
\<close>

theorem filter_data_idempotent:
  assumes "argsort_ok argsort" and "index_of col_date (columns df) = Some i"
    and "topics = None \<or> topics = Some [] \<or> index_of col_topic (columns df) = Some j"
  shows "\<exists>d1 d2. filter_data argsort df topics date_range = Inr d1
     \<and> filter_data argsort d1 topics date_range = Inr d2
     \<and> columns d2 = columns d1 \<and> when_tz d2 = when_tz d1
     \<and> mset (rows d2) = mset (rows d1)
     \<and> map (\<lambda>r. when_of (r ! i)) (rows d2) = map (\<lambda>r. when_of (r ! i)) (rows d1)
     \<and> filter (\<lambda>r. \<not> present i r) (rows d2) = filter (\<lambda>r. \<not> present i r) (rows d1)
     \<and> (distinct (map (when_at i) (filter (present i) (rows d1))) \<longrightarrow> d2 = d1)
     \<and> (argsort = stable_argsort \<longrightarrow> d2 = d1)"
proof -
  obtain F where F: "filter_data argsort df topics date_range = Inr (df\<lparr>rows := sort_rows argsort i F\<rparr>)"
    "filter_data argsort (df\<lparr>rows := sort_rows argsort i F\<rparr>) topics date_range
      = Inr (df\<lparr>rows := sort_rows argsort i (sort_rows argsort i F)\<rparr>)"
    using filter_data_twice [OF assms] by blast
  define M where "M = filter (\<lambda>r. \<not> present i r) F"
  define d1 where "d1 = df\<lparr>rows := sort_rows argsort i F\<rparr>"
  define d2 where "d2 = df\<lparr>rows := sort_rows argsort i (sort_rows argsort i F)\<rparr>"
  have c: "columns d2 = columns d1" and t: "when_tz d2 = when_tz d1"
    by (simp_all add: d1_def d2_def)
  have r1: "rows d1 = sort_rows argsort i F" by (simp add: d1_def)
  have r2: "rows d2 = sort_rows argsort i (sort_rows argsort i F)" by (simp add: d2_def)
  have same: "rows d2 = rows d1 \<Longrightarrow> d2 = d1"
    by (simp add: d1_def d2_def)
  have f1: "filter_data argsort df topics date_range = Inr d1"
    using F(1) by (simp only: d1_def)
  have f2: "filter_data argsort d1 topics date_range = Inr d2"
    using F(2) by (simp only: d1_def d2_def)
  obtain ps ps' where p: "sort_rows argsort i F = ps @ M"
    "sort_rows argsort i (sort_rows argsort i F) = ps' @ M"
    "mset ps' = mset ps" "map (when_at i) ps' = map (when_at i) ps"
    "mset ps = mset (filter (present i) F)"
    unfolding M_def using sort_rows_twice [OF assms(1)] by blast
  have q1: "rows d1 = ps @ M" using p(1) by (simp only: r1)
  have q2: "rows d2 = ps' @ M" using p(2) by (simp only: r2)
  have "set ps = set (filter (present i) F)" using p(5) by (rule mset_eq_setD)
  then have pr: "\<forall>r \<in> set ps. present i r" by simp
  have "set ps' = set ps" using p(3) by (rule mset_eq_setD)
  then have pr': "\<forall>r \<in> set ps'. present i r" using pr by simp
  have a: "mset (rows d2) = mset (rows d1)" using p(3) by (simp add: q1 q2)
  have k: "map (\<lambda>r. when_of (r ! i)) ps' = map (\<lambda>r. when_of (r ! i)) ps"
  proof -
    have "map (\<lambda>r. Some (when_at i r)) ps' = map Some (map (when_at i) ps')" by simp
    also have "\<dots> = map Some (map (when_at i) ps)" by (simp only: p(4))
    also have "\<dots> = map (\<lambda>r. Some (when_at i r)) ps" by simp
    finally show ?thesis by (simp only: present_keys [OF pr] present_keys [OF pr'])
  qed
  have b: "map (\<lambda>r. when_of (r ! i)) (rows d2) = map (\<lambda>r. when_of (r ! i)) (rows d1)"
    using k by (simp add: q1 q2)
  have m: "filter (\<lambda>r. \<not> present i r) (rows d2) = filter (\<lambda>r. \<not> present i r) (rows d1)"
    unfolding q1 q2 M_def
    by (simp only: filter_present_split(2) [OF pr] filter_present_split(2) [OF pr'])
  have d: "distinct (map (when_at i) (filter (present i) (rows d1))) \<longrightarrow> d2 = d1"
  proof
    assume dist: "distinct (map (when_at i) (filter (present i) (rows d1)))"
    have "filter (present i) (rows d1) = ps"
      unfolding q1 M_def by (rule filter_present_split(1) [OF pr])
    then have "distinct (map (when_at i) ps)" using dist by (simp only:)
    then have "distinct (map (when_at i) ps')" by (simp only: p(4))
    then have "ps' = ps" by (rule same_keys_distinct [OF p(3) p(4)])
    then have "rows d2 = rows d1" by (simp only: q1 q2)
    then show "d2 = d1" by (rule same)
  qed
  have e: "argsort = stable_argsort \<longrightarrow> d2 = d1"
  proof
    assume s: "argsort = stable_argsort"
    have "rows d2 = rows d1"
      unfolding r1 r2 s by (rule sort_rows_stable_idem)
    then show "d2 = d1" by (rule same)
  qed
  show ?thesis
    apply (rule exI [of _ d1])
    apply (rule exI [of _ d2])
    using f1 f2 c t a b m d e apply (intro conjI)
            apply assumption+
    done
qed

theorem filter_data_idempotent_witness:
  "argsort_ok stable_argsort \<and> index_of col_date (columns scenario_frame) = Some 0
   \<and> (\<exists>d1 d2. filter_data stable_argsort scenario_frame None (Some (19728, 19728)) = Inr d1
     \<and> filter_data stable_argsort d1 None (Some (19728, 19728)) = Inr d2
     \<and> columns d2 = columns d1 \<and> when_tz d2 = when_tz d1
     \<and> mset (rows d2) = mset (rows d1)
     \<and> map (\<lambda>r. when_of (r ! 0)) (rows d2) = map (\<lambda>r. when_of (r ! 0)) (rows d1)
     \<and> filter (\<lambda>r. \<not> present 0 r) (rows d2) = filter (\<lambda>r. \<not> present 0 r) (rows d1)
     \<and> (distinct (map (when_at 0) (filter (present 0) (rows d1))) \<longrightarrow> d2 = d1)
     \<and> (stable_argsort = stable_argsort \<longrightarrow> d2 = d1))"
  apply (intro conjI)
    apply (rule stable_argsort_ok)
   apply (rule scenario_frame_date)
  apply (rule filter_data_idempotent [OF stable_argsort_ok scenario_frame_date scenario_topics_None])
  done

theorem filter_data_idempotent_counterexample:
  "\<exists>argsort d1 d2. argsort_ok argsort \<and>
      filter_data argsort tied_frame None None = Inr d1 \<and>
      filter_data argsort d1 None None = Inr d2 \<and> d2 \<noteq> d1"
proof -
  let ?R = "\<lambda>ks :: int list. sort_key (\<lambda>j. ks ! j) (rev [0..<length ks])"
  have n: "?R (replicate 17 (1704481200 * NS)) \<noteq> [0..<17]" by (rule reversing_tied)
  obtain d1 d2 where d: "filter_data ?R tied_frame None None = Inr d1"
    "filter_data ?R d1 None None = Inr d2"
    "d2 = d1 \<longleftrightarrow> ?R (replicate 17 (1704481200 * NS)) = [0..<17]"
    using tied_frame_twice [OF argsort_ok_reversing] by blast
  have "d2 \<noteq> d1" using d(3) n by simp
  then show ?thesis using d(1,2) argsort_ok_reversing by blast
qed

section \<open>Properties of _format_when_display\<close>

declare year_day.simps [simp del]

declare digits.simps [simp del]

lemma year_day_bounds:
  "year_day y d = (y', d') \<Longrightarrow>
     0 \<le> d' \<and> d' < days_in_year y' \<and>
     (0 \<le> d \<longrightarrow> y \<le> y' \<and> 365 * (y' - y) \<le> d) \<and>
     (d < 0 \<longrightarrow> y' \<le> y \<and> 365 * (y - y') \<le> 366 - d)"
proof (induction y d arbitrary: y' d' rule: year_day.induct)
  case (1 y d)
  have L: "\<And>x. days_in_year x = 365 \<or> days_in_year x = 366"
    by (simp add: days_in_year_def)
  show ?case
  proof (cases "d < 0")
    case True
    then have r: "year_day (y - 1) (d + days_in_year (y - 1)) = (y', d')"
      using "1.prems" by (subst (asm) year_day.simps) simp
    show ?thesis using "1.IH"(1) [OF True r] True L [of "y - 1"] by auto
  next
    case False
    show ?thesis
    proof (cases "days_in_year y \<le> d")
      case True
      then have r: "year_day (y + 1) (d - days_in_year y) = (y', d')"
        using "1.prems" False by (subst (asm) year_day.simps) simp
      show ?thesis using "1.IH"(2) [OF False True r] False True L [of y] by auto
    next
      case nl: False
      then have "(y', d') = (y, d)"
        using "1.prems" False by (subst (asm) year_day.simps) simp
      then show ?thesis using False nl by simp
    qed
  qed
qed

lemma month_day_bounds:
  "0 \<le> d \<Longrightarrow> d < sum_list ls \<Longrightarrow> \<forall>l \<in> set ls. l \<le> 31 \<Longrightarrow> month_day ls m d = (m', d') \<Longrightarrow>
     m \<le> m' \<and> m' < m + int (length ls) \<and> 1 \<le> d' \<and> d' \<le> 31"
proof (induction ls arbitrary: m d)
  case Nil
  then show ?case by simp
next
  case (Cons l ls)
  show ?case
  proof (cases "d < l")
    case True
    then show ?thesis using Cons.prems by auto
  next
    case False
    then have r: "month_day ls (m + 1) (d - l) = (m', d')" using Cons.prems(4) by simp
    have "m + 1 \<le> m' \<and> m' < m + 1 + int (length ls) \<and> 1 \<le> d' \<and> d' \<le> 31"
      by (rule Cons.IH [OF _ _ _ r]) (use Cons.prems False in auto)
    then show ?thesis by simp
  qed
qed

lemma sum_month_lengths: "sum_list (month_lengths y) = days_in_year y"
  by (simp add: month_lengths_def days_in_year_def)

lemma month_lengths_le: "\<forall>l \<in> set (month_lengths y). l \<le> 31"
  by (simp add: month_lengths_def)

lemma is_digit_digits: "list_all is_digit (digits n)"
proof (induction n rule: digits.induct)
  case (1 n)
  show ?case
  proof (cases "n < 10")
    case True
    then show ?thesis by (subst digits.simps) (simp add: is_digit_def)
  next
    case False
    have "n mod 10 < 10" by simp
    then have "is_digit (48 + int (n mod 10))" unfolding is_digit_def by linarith
    then show ?thesis using False "1.IH" by (subst digits.simps) simp
  qed
qed

lemma length_digits_1: "n < 10 \<Longrightarrow> length (digits n) = 1"
  by (subst digits.simps) simp

lemma length_digits_2: "10 \<le> n \<Longrightarrow> n < 100 \<Longrightarrow> length (digits n) = 2"
  by (subst digits.simps) (simp add: length_digits_1)

lemma length_digits_3: "100 \<le> n \<Longrightarrow> n < 1000 \<Longrightarrow> length (digits n) = 3"
  by (subst digits.simps) (simp add: length_digits_2)

lemma length_digits_4: "1000 \<le> n \<Longrightarrow> n < 10000 \<Longrightarrow> length (digits n) = 4"
  by (subst digits.simps) (simp add: length_digits_3)

lemma zfill_digits:
  "length (digits n) \<le> w \<Longrightarrow> length (zfill w (digits n)) = w \<and> list_all is_digit (zfill w (digits n))"
proof -
  assume l: "length (digits n) \<le> w"
  have "list_all is_digit (replicate (w - length (digits n)) 48)"
    by (simp add: list_all_iff is_digit_def)
  then have "list_all is_digit (zfill w (digits n))"
    using is_digit_digits [of n] by (simp add: zfill_def)
  moreover have "length (zfill w (digits n)) = w" using l by (simp add: zfill_def)
  ultimately show ?thesis by simp
qed

lemma zfill_2: "n < 100 \<Longrightarrow> length (zfill 2 (digits n)) = 2 \<and> list_all is_digit (zfill 2 (digits n))"
proof (rule zfill_digits)
  assume "n < 100"
  then show "length (digits n) \<le> 2"
    using length_digits_1 [of n] length_digits_2 [of n] by (cases "n < 10") simp_all
qed

lemma list_2: "length xs = 2 \<Longrightarrow> \<exists>a b. xs = [a, b]"
  by (cases xs; cases "tl xs") auto

lemma list_4: "length xs = 4 \<Longrightarrow> \<exists>a b c d. xs = [a, b, c, d]"
  by (cases xs; cases "tl xs"; cases "tl (tl xs)"; cases "tl (tl (tl xs))") auto

lemma pattern_concat:
  assumes "length Y = 4" "list_all is_digit Y" "length Mo = 2" "list_all is_digit Mo"
    "length D = 2" "list_all is_digit D" "length H = 2" "list_all is_digit H"
    "length Mi = 2" "list_all is_digit Mi"
  shows "matches_pattern (Y @ [45] @ Mo @ [45] @ D @ [32] @ H @ [58] @ Mi)"
proof -
  obtain y1 y2 y3 y4 where Y: "Y = [y1, y2, y3, y4]" using list_4 [OF assms(1)] by blast
  obtain m1 m2 where Mo: "Mo = [m1, m2]" using list_2 [OF assms(3)] by blast
  obtain d1 d2 where D: "D = [d1, d2]" using list_2 [OF assms(5)] by blast
  obtain h1 h2 where H: "H = [h1, h2]" using list_2 [OF assms(7)] by blast
  obtain n1 n2 where Mi: "Mi = [n1, n2]" using list_2 [OF assms(9)] by blast
  show ?thesis
    using assms(2,4,6,8,10) unfolding Y Mo D H Mi by (simp add: matches_pattern_def)
qed

lemma div_between:
  assumes "lo \<le> (a :: int)" and "a \<le> hi" and "0 < c"
  shows "lo div c \<le> a div c \<and> a div c \<le> hi div c"
  using assms by (simp add: zdiv_mono1)

lemma time_of_day:
  "0 \<le> (w mod DAY) div NS div 3600 \<and> (w mod DAY) div NS div 3600 < 24 \<and>
   0 \<le> ((w mod DAY) div NS mod 3600) div 60 \<and> ((w mod DAY) div NS mod 3600) div 60 < 60"
proof -
  define x where "x = w mod DAY"
  define secs where "secs = x div NS"
  have x: "0 \<le> x" "x \<le> 86399999999999" by (simp_all add: x_def DAY_def NS_def)
  have "0 div NS \<le> x div NS \<and> x div NS \<le> 86399999999999 div NS"
    by (rule div_between [OF x]) (simp add: NS_def)
  then have secs: "0 \<le> secs" "secs \<le> 86399" by (simp_all add: secs_def NS_def)
  have "0 div 3600 \<le> secs div 3600 \<and> secs div 3600 \<le> 86399 div 3600"
    by (rule div_between [OF secs]) simp
  then have H: "0 \<le> secs div 3600" "secs div 3600 < 24" by simp_all
  have r: "0 \<le> secs mod 3600" "secs mod 3600 \<le> 3599" by simp_all
  have "0 div 60 \<le> secs mod 3600 div 60 \<and> secs mod 3600 div 60 \<le> 3599 div 60"
    by (rule div_between [OF r]) simp
  then have M: "0 \<le> secs mod 3600 div 60" "secs mod 3600 div 60 < 60" by simp_all
  show ?thesis using H M by (simp only: secs_def x_def)
qed

lemma strftime_raises:
  "year_of w < 1 \<or> 9999 < year_of w \<Longrightarrow> strftime w = Inl NotImplementedError"
  by (auto simp: strftime_def year_of_def Let_def split: prod.splits)

lemma strftime_returns:
  assumes "1 \<le> year_of w" and "year_of w \<le> 9999"
  shows "\<exists>rest. strftime w = Inr (digits (nat (year_of w)) @ rest) \<and> length rest = 12 \<and>
           (length (digits (nat (year_of w))) = 4 \<longrightarrow>
              matches_pattern (digits (nat (year_of w)) @ rest))"
proof -
  obtain y doy where yd: "year_day 1970 (w div DAY) = (y, doy)"
    by (cases "year_day 1970 (w div DAY)")
  have y: "year_of w = y" by (simp add: year_of_def yd)
  obtain m d where md: "month_day (month_lengths y) 1 doy = (m, d)"
    by (cases "month_day (month_lengths y) 1 doy")
  have doy: "0 \<le> doy" "doy < days_in_year y" using year_day_bounds [OF yd] by simp_all
  have mdb: "1 \<le> m \<and> m < 1 + int (length (month_lengths y)) \<and> 1 \<le> d \<and> d \<le> 31"
    by (rule month_day_bounds [OF doy(1) _ month_lengths_le md]) (simp add: sum_month_lengths doy(2))
  then have m: "1 \<le> m" "m < 13" and d: "1 \<le> d" "d \<le> 31"
    by (simp_all add: month_lengths_def)
  define H where "H = (w mod DAY) div NS div 3600"
  define M where "M = ((w mod DAY) div NS mod 3600) div 60"
  have hm: "0 \<le> H" "H < 24" "0 \<le> M" "M < 60"
    using time_of_day [of w] by (simp_all add: H_def M_def)
  define rest where "rest = [45] @ zfill 2 (digits (nat m)) @ [45]
                   @ zfill 2 (digits (nat d)) @ [32] @ zfill 2 (digits (nat H)) @ [58]
                   @ zfill 2 (digits (nat M))"
  have e: "strftime w = Inr (digits (nat y) @ rest)"
    using assms y yd md by (simp add: strftime_def Let_def rest_def H_def M_def)
  have Mo: "length (zfill 2 (digits (nat m))) = 2 \<and> list_all is_digit (zfill 2 (digits (nat m)))"
    by (rule zfill_2) (use m in linarith)
  have D: "length (zfill 2 (digits (nat d))) = 2 \<and> list_all is_digit (zfill 2 (digits (nat d)))"
    by (rule zfill_2) (use d in linarith)
  have Hh: "length (zfill 2 (digits (nat H))) = 2 \<and> list_all is_digit (zfill 2 (digits (nat H)))"
    by (rule zfill_2) (use hm in linarith)
  have Mi: "length (zfill 2 (digits (nat M))) = 2 \<and> list_all is_digit (zfill 2 (digits (nat M)))"
    by (rule zfill_2) (use hm in linarith)
  have l: "length rest = 12" using Mo D Hh Mi by (simp add: rest_def)
  have "matches_pattern (digits (nat y) @ rest)" if "length (digits (nat y)) = 4"
    unfolding rest_def
    by (rule pattern_concat) (use that Mo D Hh Mi is_digit_digits [of "nat y"] in simp_all)
  then show ?thesis using e l y by blast
qed

lemma short_no_pattern: "length Y < 4 \<Longrightarrow> length rest = 12 \<Longrightarrow> \<not> matches_pattern (Y @ rest)"
  by (simp add: matches_pattern_def)

lemma length_digits_year:
  "1000 \<le> y \<Longrightarrow> y \<le> 9999 \<Longrightarrow> length (digits (nat y)) = 4"
  "1 \<le> y \<Longrightarrow> y < 1000 \<Longrightarrow> length (digits (nat y)) < 4"
proof -
  show "1000 \<le> y \<Longrightarrow> y \<le> 9999 \<Longrightarrow> length (digits (nat y)) = 4"
    by (rule length_digits_4) linarith+
  assume y: "1 \<le> y" "y < 1000"
  consider "nat y < 10" | "10 \<le> nat y" "nat y < 100" | "100 \<le> nat y" "nat y < 1000"
    using y by linarith
  then show "length (digits (nat y)) < 4"
  proof cases
    case 1
    then show ?thesis by (simp add: length_digits_1)
  next
    case 2
    then show ?thesis by (simp add: length_digits_2)
  next
    case 3
    then show ?thesis by (simp add: length_digits_3)
  qed
qed

lemma year_in_bounds:
  assumes "in_bounds w"
  shows "1677 \<le> year_of w \<and> year_of w \<le> 2262"
proof -
  obtain y doy where yd: "year_day 1970 (w div DAY) = (y, doy)"
    by (cases "year_day 1970 (w div DAY)")
  have w: "- 9223372036854775807 \<le> w" "w \<le> 9223372036854775807"
    using assms by (simp_all add: in_bounds_def)
  have "- 9223372036854775807 div DAY \<le> w div DAY \<and> w div DAY \<le> 9223372036854775807 div DAY"
    by (rule div_between [OF w]) (simp add: DAY_def NS_def)
  then have db: "- 106752 \<le> w div DAY \<and> w div DAY \<le> 106751"
    by (simp add: DAY_def NS_def)
  have "1677 \<le> y \<and> y \<le> 2262"
    using year_day_bounds [OF yd] db by (cases "w div DAY < 0") auto
  then show ?thesis by (simp add: year_of_def yd)
qed

lemma representable_in_bounds:
  assumes "in_bounds w"
  shows "representable u w"
proof -
  have w: "- 9223372036854775807 \<le> w" "w \<le> 9223372036854775807"
    using assms by (simp_all add: in_bounds_def)
  have c: "0 < per_unit u" by (cases u) simp_all
  have b: "- 9223372036854775807 div per_unit u \<le> w div per_unit u \<and>
        w div per_unit u \<le> 9223372036854775807 div per_unit u"
    by (rule div_between [OF w c])
  have "- 9223372036854775807 \<le> - 9223372036854775807 div per_unit u \<and>
        9223372036854775807 div per_unit u \<le> 9223372036854775807"
    by (cases u) simp_all
  then show ?thesis using b by (simp add: representable_def in_bounds_def)
qed

lemma format_displayed:
  "format_when_display u z (Ts v) =
     (case displayed u z v of
        Inl _ \<Rightarrow> []
      | Inr w \<Rightarrow> (case strftime w of Inl _ \<Rightarrow> [] | Inr s \<Rightarrow> s))"
  by (cases z) (simp_all add: displayed_def then_do_def split: sum.splits)

declare format_when_display.simps(1) [simp del]

lemma format_year:
  assumes "displayed u z v = Inr w"
  shows "(year_of w < 1 \<or> 9999 < year_of w \<longrightarrow> format_when_display u z (Ts v) = []) \<and>
         (1000 \<le> year_of w \<and> year_of w \<le> 9999 \<longrightarrow>
            matches_pattern (format_when_display u z (Ts v))) \<and>
         (1 \<le> year_of w \<and> year_of w < 1000 \<longrightarrow>
            take (length (digits (nat (year_of w)))) (format_when_display u z (Ts v))
              = digits (nat (year_of w)) \<and>
            length (format_when_display u z (Ts v)) = length (digits (nat (year_of w))) + 12 \<and>
            length (format_when_display u z (Ts v)) < 16 \<and>
            \<not> matches_pattern (format_when_display u z (Ts v)))"
proof -
  have f: "format_when_display u z (Ts v) = (case strftime w of Inl _ \<Rightarrow> [] | Inr s \<Rightarrow> s)"
    by (simp only: format_displayed assms sum.case)
  have a: "format_when_display u z (Ts v) = []" if "year_of w < 1 \<or> 9999 < year_of w"
    using strftime_raises [OF that] by (simp add: f)
  have b: "matches_pattern (format_when_display u z (Ts v))"
    if yr: "1000 \<le> year_of w \<and> year_of w \<le> 9999"
  proof -
    obtain rest where r: "strftime w = Inr (digits (nat (year_of w)) @ rest)"
      "length (digits (nat (year_of w))) = 4 \<longrightarrow> matches_pattern (digits (nat (year_of w)) @ rest)"
      using strftime_returns [of w] yr by auto
    show ?thesis using r length_digits_year(1) [of "year_of w"] yr by (simp add: f)
  qed
  have c: "take (length (digits (nat (year_of w)))) (format_when_display u z (Ts v))
              = digits (nat (year_of w)) \<and>
            length (format_when_display u z (Ts v)) = length (digits (nat (year_of w))) + 12 \<and>
            length (format_when_display u z (Ts v)) < 16 \<and>
            \<not> matches_pattern (format_when_display u z (Ts v))"
    if yr: "1 \<le> year_of w \<and> year_of w < 1000"
  proof -
    obtain rest where r: "strftime w = Inr (digits (nat (year_of w)) @ rest)" "length rest = 12"
      using strftime_returns [of w] yr by auto
    have l: "length (digits (nat (year_of w))) < 4"
      using length_digits_year(2) [of "year_of w"] yr by simp
    show ?thesis using r l short_no_pattern [OF l r(2)] by (simp add: f)
  qed
  show ?thesis using a b c by blast
qed

lemma format_scenario:
  "format_when_display Nanoseconds None (Ts (1704564000 * NS)) =
     [50, 48, 50, 52, 45, 48, 49, 45, 48, 54, 32, 49, 56, 58, 48, 48]"
  by code_simp

text \<open>
  The reading of the text without zone is displayed as the text itself, 2024-01-06 09:00;
  the value that \<open>load_sheet\<close> stores for it is displayed as 2024-01-06 18:00.
\<close>

lemma format_naive_reading:
  "format_when_display Nanoseconds None (Ts (1704531600 * NS)) = txt_naive"
  by code_simp

lemma old_loaded:
  "load_sheet old_parse (Inr old_raw) =
     Inr ([], \<lparr>columns = [col_date, col_title, col_body, col_topic, col_summary, col_newsletter],
               when_tz = None,
               rows = [[Ts (- 46388647928 * NS), NA, NA, NA, NA, NA]]\<rparr>)"
  by code_simp

lemma old_displayed:
  "format_when_display Microseconds None (Ts (- 46388647928 * NS)) =
     [53, 48, 48, 45, 48, 49, 45, 48, 49, 32, 48, 56, 58, 50, 55]"
  by code_simp

text \<open>
  C9, as the code has it. A missing timestamp (and every cell that is no timestamp)
  gives the empty string, and the function returns a string for every argument: when the
  conversion to Asia/Seoul or the formatting raises, the exception is caught and the
  result is the empty string. A present timestamp gives a string of the form
  \<open>YYYY-MM-DD HH:MM\<close>, without zone, when the year of the reading that is formatted lies
  between 1000 and 9999, so for every timestamp in the range of the nanosecond
  timestamps whose reading in Asia/Seoul is in that range too. For a year between 1 and
  999 the year is printed without leading zeros and the string is shorter than the
  pattern; for a year outside 1 to 9999, and for a reading in Asia/Seoul that the 64 bits
  cannot hold, the result is the empty string.
\<close>

theorem format_when_display_shape:
  "format_when_display u z NaT = [] \<and> format_when_display u z NA = []
   \<and> format_when_display u z (Str s) = []
   \<and> (displayed u z v = Inl e \<longrightarrow> format_when_display u z (Ts v) = [])
   \<and> (displayed u z v = Inr w \<longrightarrow>
        (year_of w < 1 \<or> 9999 < year_of w \<longrightarrow> format_when_display u z (Ts v) = []) \<and>
        (1000 \<le> year_of w \<and> year_of w \<le> 9999 \<longrightarrow>
           matches_pattern (format_when_display u z (Ts v))) \<and>
        (1 \<le> year_of w \<and> year_of w < 1000 \<longrightarrow>
           take (length (digits (nat (year_of w)))) (format_when_display u z (Ts v))
             = digits (nat (year_of w)) \<and>
           length (format_when_display u z (Ts v)) = length (digits (nat (year_of w))) + 12 \<and>
           length (format_when_display u z (Ts v)) < 16 \<and>
           \<not> matches_pattern (format_when_display u z (Ts v))))
   \<and> (in_bounds v \<longrightarrow> matches_pattern (format_when_display u None (Ts v)))
   \<and> (in_bounds v \<and> in_bounds (v + tz_database Asia_Seoul v) \<longrightarrow>
        matches_pattern (format_when_display u (Some zone) (Ts v)))
   \<and> (in_bounds v \<and> \<not> in_bounds (v + tz_database Asia_Seoul v) \<longrightarrow>
        format_when_display Nanoseconds (Some zone) (Ts v) = [])"
proof -
  have a: "format_when_display u z (Ts v) = []" if "displayed u z v = Inl e"
    by (simp only: format_displayed that sum.case)
  have b: "matches_pattern (format_when_display u None (Ts v))" if ib: "in_bounds v"
  proof -
    have d: "displayed u None v = Inr v" by (simp add: displayed_def)
    show ?thesis using format_year [OF d] year_in_bounds [OF ib] by simp
  qed
  have c: "matches_pattern (format_when_display u (Some zone) (Ts v))"
    if ib: "in_bounds v \<and> in_bounds (v + tz_database Asia_Seoul v)"
  proof -
    have r: "representable u (v + tz_database Asia_Seoul v)"
      by (rule representable_in_bounds) (use ib in simp)
    have d: "displayed u (Some zone) v = Inr (v + tz_database Asia_Seoul v)"
      using r by (simp add: displayed_def local_reading_def Let_def)
    have "1677 \<le> year_of (v + tz_database Asia_Seoul v) \<and>
          year_of (v + tz_database Asia_Seoul v) \<le> 2262"
      by (rule year_in_bounds) (use ib in simp)
    then show ?thesis using format_year [OF d] by simp
  qed
  have d: "format_when_display Nanoseconds (Some zone) (Ts v) = []"
    if "in_bounds v \<and> \<not> in_bounds (v + tz_database Asia_Seoul v)"
  proof -
    have "displayed Nanoseconds (Some zone) v = Inl OutOfBoundsDatetime"
      using that by (simp add: displayed_def local_reading_def Let_def representable_def)
    then show ?thesis by (simp only: format_displayed sum.case)
  qed
  have e: "displayed u z v = Inr w \<longrightarrow>
        (year_of w < 1 \<or> 9999 < year_of w \<longrightarrow> format_when_display u z (Ts v) = []) \<and>
        (1000 \<le> year_of w \<and> year_of w \<le> 9999 \<longrightarrow>
           matches_pattern (format_when_display u z (Ts v))) \<and>
        (1 \<le> year_of w \<and> year_of w < 1000 \<longrightarrow>
           take (length (digits (nat (year_of w)))) (format_when_display u z (Ts v))
             = digits (nat (year_of w)) \<and>
           length (format_when_display u z (Ts v)) = length (digits (nat (year_of w))) + 12 \<and>
           length (format_when_display u z (Ts v)) < 16 \<and>
           \<not> matches_pattern (format_when_display u z (Ts v)))"
    using format_year [of u z v w] by blast
  show ?thesis
    apply (intro conjI)
           apply simp
          apply simp
         apply simp
    using a apply blast
    using e apply blast
    using b apply blast
    using c apply blast
    using d apply blast
    done
qed

lemma format_aware:
  "format_when_display Nanoseconds (Some UTC) (Ts (1704448800 * NS)) =
     [50, 48, 50, 52, 45, 48, 49, 45, 48, 53, 32, 49, 57, 58, 48, 48]"
  by code_simp

theorem format_when_display_shape_witness:
  "in_bounds (1704564000 * NS)
   \<and> format_when_display Nanoseconds None (Ts (1704564000 * NS)) =
       [50, 48, 50, 52, 45, 48, 49, 45, 48, 54, 32, 49, 56, 58, 48, 48]
   \<and> matches_pattern (format_when_display Nanoseconds None (Ts (1704564000 * NS)))
   \<and> in_bounds (1704448800 * NS)
   \<and> in_bounds (1704448800 * NS + tz_database Asia_Seoul (1704448800 * NS))
   \<and> format_when_display Nanoseconds (Some UTC) (Ts (1704448800 * NS)) =
       [50, 48, 50, 52, 45, 48, 49, 45, 48, 53, 32, 49, 57, 58, 48, 48]
   \<and> matches_pattern (format_when_display Nanoseconds (Some UTC) (Ts (1704448800 * NS)))
   \<and> in_bounds 9223372036854775807
   \<and> \<not> in_bounds (9223372036854775807 + tz_database Asia_Seoul 9223372036854775807)
   \<and> displayed Nanoseconds (Some UTC) 9223372036854775807 = Inl OutOfBoundsDatetime
   \<and> format_when_display Nanoseconds (Some UTC) (Ts 9223372036854775807) = []
   \<and> displayed Microseconds None (- 46388647928 * NS) = Inr (- 46388647928 * NS)
   \<and> year_of (- 46388647928 * NS) = 500
   \<and> format_when_display Microseconds None (Ts (- 46388647928 * NS)) =
       [53, 48, 48, 45, 48, 49, 45, 48, 49, 32, 48, 56, 58, 50, 55]
   \<and> \<not> matches_pattern (format_when_display Microseconds None (Ts (- 46388647928 * NS)))
   \<and> displayed Seconds None (- 62135683200 * NS) = Inr (- 62135683200 * NS)
   \<and> year_of (- 62135683200 * NS) = 0
   \<and> format_when_display Seconds None (Ts (- 62135683200 * NS)) = []"
proof -
  have b1: "in_bounds (1704564000 * NS)" by (simp add: in_bounds_def NS_def)
  have b2: "in_bounds (1704448800 * NS)" by (simp add: in_bounds_def NS_def)
  have t2: "tz_database Asia_Seoul (1704448800 * NS) = 9 * 3600 * NS"
    by (rule tz_database_now) (simp add: NS_def)
  have b3: "in_bounds (1704448800 * NS + tz_database Asia_Seoul (1704448800 * NS))"
    by (simp only: t2) (simp add: in_bounds_def NS_def)
  have b4: "in_bounds 9223372036854775807" by (simp add: in_bounds_def)
  have t4: "tz_database Asia_Seoul 9223372036854775807 = 9 * 3600 * NS"
    by (rule tz_database_now) (simp add: NS_def)
  have b5: "\<not> in_bounds (9223372036854775807 + tz_database Asia_Seoul 9223372036854775807)"
    by (simp only: t4) (simp add: in_bounds_def NS_def)
  have d4: "displayed Nanoseconds (Some UTC) 9223372036854775807 = Inl OutOfBoundsDatetime"
    using b5 by (simp add: displayed_def local_reading_def Let_def representable_def)
  have d5: "displayed Microseconds None (- 46388647928 * NS) = Inr (- 46388647928 * NS)"
    by (simp add: displayed_def)
  have y5: "year_of (- 46388647928 * NS) = 500" by code_simp
  have d6: "displayed Seconds None (- 62135683200 * NS) = Inr (- 62135683200 * NS)"
    by (simp add: displayed_def)
  have y6: "year_of (- 62135683200 * NS) = 0" by code_simp
  have m1: "matches_pattern (format_when_display Nanoseconds None (Ts (1704564000 * NS)))"
    using format_when_display_shape [where u = Nanoseconds and v = "1704564000 * NS"] b1
    by blast
  have m2: "matches_pattern (format_when_display Nanoseconds (Some UTC) (Ts (1704448800 * NS)))"
    using format_when_display_shape
      [where u = Nanoseconds and v = "1704448800 * NS" and zone = UTC] b2 b3
    by blast
  have m4: "format_when_display Nanoseconds (Some UTC) (Ts 9223372036854775807) = []"
    using format_when_display_shape
      [where u = Nanoseconds and z = "Some UTC" and v = 9223372036854775807
         and e = OutOfBoundsDatetime] d4
    by blast
  have m5: "\<not> matches_pattern (format_when_display Microseconds None (Ts (- 46388647928 * NS)))"
    using format_when_display_shape
      [where u = Microseconds and z = None and v = "- 46388647928 * NS"
         and w = "- 46388647928 * NS"] d5 y5
    by simp
  have m6: "format_when_display Seconds None (Ts (- 62135683200 * NS)) = []"
    using format_when_display_shape
      [where u = Seconds and z = None and v = "- 62135683200 * NS"
         and w = "- 62135683200 * NS"] d6 y6
    by simp
  show ?thesis
    by (intro conjI) (fact | rule format_scenario format_aware old_displayed)+
qed

theorem format_when_display_year_counterexample:
  "load_sheet old_parse (Inr old_raw) =
     Inr ([], \<lparr>columns = [col_date, col_title, col_body, col_topic, col_summary, col_newsletter],
               when_tz = None,
               rows = [[Ts (- 46388647928 * NS), NA, NA, NA, NA, NA]]\<rparr>)
   \<and> format_when_display Microseconds None (Ts (- 46388647928 * NS)) =
       [53, 48, 48, 45, 48, 49, 45, 48, 49, 32, 48, 56, 58, 50, 55]
   \<and> \<not> matches_pattern (format_when_display Microseconds None (Ts (- 46388647928 * NS)))"
proof -
  have "\<not> matches_pattern [53, 48, 48, 45, 48, 49, 45, 48, 49, 32, 48, 56, 58, 50, 55]"
    by (simp add: matches_pattern_def)
  then show ?thesis using old_loaded old_displayed by simp
qed

end
